theory Spec2Isabelle
  imports Main "HOL-Library.Sublist" "HOL-Library.AList"
begin

section \<open>JavaScript values used by the statistics code\<close>

subsection \<open>Strings\<close>

text \<open>
  Strings are modelled as ASCII character lists. \<open>String.prototype.includes\<close> is a
  substring test, \<open>split\<close> is modelled for a one-character separator, and
  \<open>toLowerCase\<close> maps the letters A..Z to a..z.
\<close>

fun str_includes :: "string \<Rightarrow> string \<Rightarrow> bool" where
  "str_includes [] needle = (needle = [])"
| "str_includes (c # cs) needle = (prefix needle (c # cs) \<or> str_includes cs needle)"

fun split_js :: "char \<Rightarrow> string \<Rightarrow> string list" where
  "split_js sep [] = [[]]"
| "split_js sep (c # cs) =
     (if c = sep then [] # split_js sep cs
      else (case split_js sep cs of
              [] \<Rightarrow> [[c]]
            | piece # pieces \<Rightarrow> (c # piece) # pieces))"

definition lower_char :: "char \<Rightarrow> char" where
  "lower_char ch =
     (case map_of (zip ''ABCDEFGHIJKLMNOPQRSTUVWXYZ'' ''abcdefghijklmnopqrstuvwxyz'') ch of
        Some l \<Rightarrow> l
      | None \<Rightarrow> ch)"

definition toLowerCase :: "string \<Rightarrow> string" where
  "toLowerCase s = map lower_char s"

subsection \<open>Plain objects used as counters\<close>

text \<open>
  The code counts into object literals: \<open>types = {}\<close>, \<open>memberStats = {}\<close>, with
  \<open>obj[k] = (obj[k] || 0) + n\<close>. An object literal inherits from \<open>Object.prototype\<close>,
  so reading a key that is not an own property but names an inherited one yields that
  inherited object, which is truthy and not a number; adding a number to it yields a
  string. \<open>Inherited k\<close> is the value of \<open>Object.prototype[k]\<close> (a function, or the
  prototype object itself for \<open>__proto__\<close>) and \<open>NonNumber\<close> is a string that \<open>+\<close>
  produced. The other two values arise only when a report is read back from its JSON
  text: \<open>EmptyObject\<close> is \<open>{}\<close> and \<open>Missing\<close> stands for a property that is not there.
  Own properties are kept in insertion order; the place JavaScript gives to integer-like
  keys is not modelled, and no statement below depends on the order of the keys of a
  histogram with several keys.
\<close>

datatype jsval = Num int | NonNumber | Inherited string | EmptyObject | Missing

type_synonym jsobj = "(string \<times> jsval) list"

definition objectPrototypeNames :: "string list" where
  "objectPrototypeNames =
     [''constructor'', ''__defineGetter__'', ''__defineSetter__'', ''hasOwnProperty'',
      ''__lookupGetter__'', ''__lookupSetter__'', ''isPrototypeOf'',
      ''propertyIsEnumerable'', ''toString'', ''valueOf'', ''__proto__'',
      ''toLocaleString'']"

definition js_get :: "jsobj \<Rightarrow> string \<Rightarrow> jsval option" where
  \<comment> \<open>\<open>obj[k]\<close>; \<open>None\<close> is \<open>undefined\<close>\<close>
  "js_get obj k =
     (case map_of obj k of
        Some v \<Rightarrow> Some v
      | None \<Rightarrow> if k \<in> set objectPrototypeNames then Some (Inherited k) else None)"

definition js_set :: "jsobj \<Rightarrow> string \<Rightarrow> jsval \<Rightarrow> jsobj" where
  \<comment> \<open>\<open>obj[k] = v\<close> for a primitive \<open>v\<close>; the inherited \<open>__proto__\<close> setter ignores primitives\<close>
  "js_set obj k v = (if k = ''__proto__'' then obj else AList.update k v obj)"

definition js_or0 :: "jsval option \<Rightarrow> jsval" where
  \<comment> \<open>\<open>x || 0\<close>: \<open>undefined\<close> and \<open>0\<close> are falsy; objects, functions and the strings that
      \<open>+\<close> produced (never empty) are truthy\<close>
  "js_or0 x = (case x of None \<Rightarrow> Num 0 | Some Missing \<Rightarrow> Num 0 | Some v \<Rightarrow> v)"

fun js_plus :: "jsval \<Rightarrow> jsval \<Rightarrow> jsval" where
  \<comment> \<open>\<open>a + b\<close>: numeric addition, or string concatenation when an operand is a string, a
      function or an object; \<open>Missing\<close> is never an operand, since \<open>js_or0\<close> replaces it\<close>
  "js_plus (Num a) (Num b) = Num (a + b)"
| "js_plus _ _ = NonNumber"

definition js_bump :: "jsobj \<Rightarrow> string \<Rightarrow> jsval \<Rightarrow> jsobj" where
  \<comment> \<open>\<open>obj[k] = (obj[k] || 0) + n\<close>\<close>
  "js_bump obj k n = js_set obj k (js_plus (js_or0 (js_get obj k)) n)"

subsection \<open>Dates\<close>

text \<open>
  A \<open>Date\<close> is its time value, milliseconds since the epoch. \<open>getFullYear\<close> and
  \<open>getMonth\<close> read it in the host's local time zone, so the calendar is a parameter of
  every function that calls them. \<open>getMonth\<close> of a valid date is an index from 0 to 11
  (\<open>calendar_ok\<close>), so that \<open>monthlyStats[month]\<close> is always one of the twelve slots.
  The calendar \<open>utc\<close> is the proleptic Gregorian calendar at offset zero: the day number
  is split into 400-year eras and years that start on 1 March, and the month is found
  from the day of that year.
\<close>

record calendar =
  getFullYear :: "int \<Rightarrow> int"
  getMonth :: "int \<Rightarrow> nat"

definition calendar_ok :: "calendar \<Rightarrow> bool" where
  "calendar_ok cal = (\<forall>t. getMonth cal t < 12)"

definition month_starts :: "int list" where
  \<comment> \<open>the day of the year, counted from 1 March, on which April, May, ..., February start\<close>
  "month_starts = [31, 61, 92, 122, 153, 184, 214, 245, 275, 306, 337]"

definition civil_from_days :: "int \<Rightarrow> int \<times> nat" where
  "civil_from_days z =
     (let z1 = z + 719468;
          era = z1 div 146097;
          doe = z1 - era * 146097;
          yoe = (doe - doe div 1460 + doe div 36524 - doe div 146096) div 365;
          doy = doe - (365 * yoe + yoe div 4 - yoe div 100);
          mp = length (filter (\<lambda>start. start \<le> doy) month_starts)
      in (yoe + era * 400 + (if mp < 10 then 0 else 1), (mp + 2) mod 12))"

definition utc :: calendar where
  "utc = \<lparr>getFullYear = (\<lambda>t. fst (civil_from_days (t div 86400000))),
           getMonth = (\<lambda>t. snd (civil_from_days (t div 86400000)))\<rparr>"

section \<open>Records returned by the remote API\<close>

text \<open>
  Only the fields the code reads are kept. Timestamps are the time values of the ISO
  strings the API sends; \<open>closed_at\<close> and \<open>archived_at\<close> are \<open>None\<close> when null.
  \<open>i_pull_request\<close> says whether an item of the issues listing carries pull-request
  metadata. \<open>pr_head_ref\<close> is \<open>pr.head?.ref\<close>, \<open>None\<close> when the head or its ref is
  missing; \<open>author_login\<close> is \<open>contributor.author?.login\<close>.
\<close>

datatype error = NetworkError | HttpError nat

record member =
  login :: string

record repo =
  repo_name :: string
  stargazers_count :: int
  fork :: bool
  repo_created_at :: int
  repo_archived_at :: "int option"

record week =
  w :: int
  c :: int

record contributor =
  author_login :: "string option"
  weeks :: "week list"

record issue =
  i_pull_request :: bool
  i_created_at :: int
  i_closed_at :: "int option"
  i_state :: string

record pull_request =
  pr_created_at :: int
  pr_state :: string
  pr_head_ref :: "string option"

section \<open>Paginator\<close>

record request =
  page :: nat
  per_page :: nat

record 'a response =
  data :: "'a list"
  link :: "string option"

definition has_next :: "'a response \<Rightarrow> bool" where
  \<comment> \<open>\<open>linkHeader && linkHeader.includes('rel="next"')\<close>\<close>
  "has_next r = (case link r of None \<Rightarrow> False | Some l \<Rightarrow> str_includes l ''rel=\"next\"'')"

text \<open>
  \<open>getAllPages\<close>: the \<open>while (hasNextPage)\<close> loop. The page-fetch operation maps a
  request to a response or a thrown error; the other request parameters are fixed inside
  it. The loop need not end, so it is a partial function; the list of requests issued is
  returned with the result.
\<close>

partial_function (option) getAllPages_loop ::
  "(request \<Rightarrow> error + 'a response) \<Rightarrow> 'a list \<Rightarrow> nat \<Rightarrow> bool \<Rightarrow> request list
     \<Rightarrow> ((error + 'a list) \<times> request list) option" where
  "getAllPages_loop method allData pg hasNextPage sent =
     (if hasNextPage then
        (let req = \<lparr>page = pg, per_page = 100\<rparr>
         in case method req of
              Inl e \<Rightarrow> Some (Inl e, sent @ [req])
            | Inr resp \<Rightarrow>
                getAllPages_loop method (allData @ data resp) (pg + 1) (has_next resp)
                  (sent @ [req]))
      else Some (Inr allData, sent))"

declare getAllPages_loop.simps [code]

definition getAllPages ::
  "(request \<Rightarrow> error + 'a response) \<Rightarrow> ((error + 'a list) \<times> request list) option" where
  "getAllPages method = getAllPages_loop method [] 1 True []"

fun served :: "(request \<Rightarrow> error + 'a response) \<Rightarrow> nat \<Rightarrow> 'a response list \<Rightarrow> bool" where
  \<comment> \<open>\<open>served method pg pages\<close>: the server answers the pages \<open>pg\<close>, \<open>pg + 1\<close>, ... with
      \<open>pages\<close>, each but the last carrying the next relation, the last one not\<close>
  "served method pg [] = False"
| "served method pg [r] = (method \<lparr>page = pg, per_page = 100\<rparr> = Inr r \<and> \<not> has_next r)"
| "served method pg (r # r' # rs) =
     (method \<lparr>page = pg, per_page = 100\<rparr> = Inr r \<and> has_next r \<and> served method (pg + 1) (r' # rs))"

definition page_requests :: "nat \<Rightarrow> nat \<Rightarrow> request list" where
  \<comment> \<open>the requests for \<open>n\<close> consecutive pages from page \<open>pg\<close> on, each of size 100\<close>
  "page_requests pg n = map (\<lambda>k. \<lparr>page = k, per_page = 100\<rparr>) [pg..<pg + n]"

section \<open>Cache store\<close>

text \<open>
  The cache is the single \<open>localStorage\<close> item under \<open>CACHE_KEY\<close>: \<open>None\<close> when the
  item is not set. The item is JSON text; the model keeps the entry that \<open>JSON.parse\<close>
  reads back from it, so a caller whose data changes on the way through
  \<open>JSON.stringify\<close> hands \<open>saveToCache\<close> the data as they come back (\<open>cache_save\<close>
  below, for reports). The clock reading \<open>new Date().getTime()\<close> is the argument \<open>now\<close>.
\<close>

record 'r cache_entry =
  timestamp :: int
  orgName :: string
  payload :: 'r

type_synonym 'r storage = "'r cache_entry option"

definition CACHE_EXPIRATION :: int where
  "CACHE_EXPIRATION = 24 * 60 * 60 * 1000"

definition saveToCache :: "int \<Rightarrow> string \<Rightarrow> 'r \<Rightarrow> 'r storage \<Rightarrow> 'r storage" where
  "saveToCache now key d st = Some \<lparr>timestamp = now, orgName = key, payload = d\<rparr>"

definition getFromCache :: "int \<Rightarrow> string \<Rightarrow> 'r storage \<Rightarrow> 'r option \<times> 'r storage" where
  "getFromCache now key st =
     (case st of
        None \<Rightarrow> (None, st)
      | Some cache \<Rightarrow>
          if orgName cache \<noteq> key \<or> now - timestamp cache > CACHE_EXPIRATION
          then (None, None)
          else (Some (payload cache), st))"

section \<open>Contributor statistics with retry\<close>

text \<open>
  \<open>getContributorStatsWithRetry\<close>. The remote call is answered by \<open>server n\<close>, where
  \<open>n\<close> counts the calls made before it: a thrown error, or a response with its status
  and its body (\<open>Some\<close> when \<open>Array.isArray(response.data)\<close>). The state records the
  calls made and the delays waited, in milliseconds.
\<close>

record stats_response =
  status :: nat
  body :: "contributor list option"

record net =
  calls :: nat
  sleeps :: "nat list"

fun getContributorStatsWithRetry ::
  "(nat \<Rightarrow> error + stats_response) \<Rightarrow> nat \<Rightarrow> net \<Rightarrow> contributor list \<times> net" where
  "getContributorStatsWithRetry server retries st =
     (case server (calls st) of
        Inl e \<Rightarrow> ([], st\<lparr>calls := calls st + 1\<rparr>)
      | Inr resp \<Rightarrow>
          (let st1 = st\<lparr>calls := calls st + 1\<rparr>
           in if status resp = 202 \<and> retries > 0
              then getContributorStatsWithRetry server (retries - 1)
                     (st1\<lparr>sleeps := sleeps st1 @ [1000]\<rparr>)
              else (case body resp of Some d \<Rightarrow> d | None \<Rightarrow> [], st1)))"

declare getContributorStatsWithRetry.simps [simp del]

definition final_value :: "error + stats_response \<Rightarrow> contributor list" where
  \<comment> \<open>what the function returns on the answer that ends the retries: \<open>[]\<close> for a thrown
      error, else \<open>Array.isArray(response.data) ? response.data : []\<close>\<close>
  "final_value a = (case a of Inl e \<Rightarrow> [] | Inr r \<Rightarrow> (case body r of Some d \<Rightarrow> d | None \<Rightarrow> []))"

definition pending :: "stats_response \<Rightarrow> bool" where
  \<comment> \<open>the answer while the statistics are being computed: status 202, whose body is an
      empty object, not an array\<close>
  "pending r = (status r = 202 \<and> body r = None)"

definition default_retries :: nat where
  \<comment> \<open>the default of the parameter, \<open>retries = 3\<close>, which every caller uses\<close>
  "default_retries = 3"

section \<open>StatsCalculator\<close>

subsection \<open>calculateMonthlyIssueStats\<close>

record month_stat =
  opened :: int
  closed :: int
  total :: int

function fill_totals :: "nat \<Rightarrow> int \<Rightarrow> month_stat list \<Rightarrow> month_stat list" where
  \<comment> \<open>\<open>for (let i = month; i < 12; i++) monthlyStats[i].total = runningTotal\<close>\<close>
  "fill_totals i runningTotal monthlyStats =
     (if i < 12
      then fill_totals (i + 1) runningTotal
             (monthlyStats[i := (monthlyStats ! i)\<lparr>total := runningTotal\<rparr>])
      else monthlyStats)"
  by pat_completeness auto
termination
  by (relation "measure (\<lambda>(i, _, _). 12 - i)") auto

declare fill_totals.simps [simp del]

definition monthly_step ::
  "calendar \<Rightarrow> int \<Rightarrow> month_stat list \<times> int \<Rightarrow> issue \<Rightarrow> month_stat list \<times> int" where
  \<comment> \<open>the body of \<open>sortedIssues.forEach\<close>, on the pair of \<open>monthlyStats\<close> and \<open>runningTotal\<close>\<close>
  "monthly_step cal year acc issue =
     (let (monthlyStats, runningTotal) = acc;
          createdDate = i_created_at issue;
          closedDate = i_closed_at issue
      in if getFullYear cal createdDate \<le> year then
           (let (ms1, rt1) =
                  (if getFullYear cal createdDate = year
                   then (let month = getMonth cal createdDate
                         in (monthlyStats[month := (monthlyStats ! month)
                               \<lparr>opened := opened (monthlyStats ! month) + 1\<rparr>],
                             runningTotal + 1))
                   else (monthlyStats, runningTotal + 1));
                (ms2, rt2) =
                  (case closedDate of
                     Some cd \<Rightarrow>
                       if getFullYear cal cd = year
                       then (let month = getMonth cal cd
                             in (ms1[month := (ms1 ! month)
                                   \<lparr>closed := closed (ms1 ! month) + 1\<rparr>],
                                 rt1 - 1))
                       else (ms1, rt1)
                   | None \<Rightarrow> (ms1, rt1))
            in if getFullYear cal createdDate = year
               then (fill_totals (getMonth cal createdDate) rt2 ms2, rt2)
               else (ms2, rt2))
         else (monthlyStats, runningTotal))"

definition calculateMonthlyIssueStats :: "calendar \<Rightarrow> issue list \<Rightarrow> int \<Rightarrow> month_stat list" where
  "calculateMonthlyIssueStats cal issues year =
     (let monthlyStats = replicate 12 \<lparr>opened = 0, closed = 0, total = 0\<rparr>;
          sortedIssues = sort_key i_created_at (filter (\<lambda>issue. \<not> i_pull_request issue) issues)
      in fst (foldl (monthly_step cal year) (monthlyStats, 0) sortedIssues))"

definition carried :: "nat \<Rightarrow> month_stat list \<times> int \<Rightarrow> bool" where
  \<comment> \<open>in the loop state, month \<open>m\<close> has the total of the month before it\<close>
  "carried m acc = (length (fst acc) = 12 \<and> total (fst acc ! m) = total (fst acc ! (m - 1)))"

subsection \<open>categorizePRTypes\<close>

definition categorize_one :: "jsobj \<Rightarrow> pull_request \<Rightarrow> jsobj" where
  \<comment> \<open>the body of \<open>closedPRs.forEach\<close>; an empty \<open>ref\<close> is falsy like a missing one\<close>
  "categorize_one types pr =
     (case pr_head_ref pr of
        None \<Rightarrow> js_bump types ''unknown'' (Num 1)
      | Some ref \<Rightarrow>
          if ref = [] then js_bump types ''unknown'' (Num 1)
          else (let type = (if str_includes ref ''/''
                            then toLowerCase (hd (split_js (CHR ''/'') ref))
                            else ''unknown'')
                in js_bump types type (Num 1)))"

definition categorizePRTypes :: "pull_request list \<Rightarrow> jsobj" where
  "categorizePRTypes prs =
     (let closedPRs = filter (\<lambda>pr. pr_state pr = ''closed'') prs
      in foldl categorize_one [] closedPRs)"

definition spec_prType :: "pull_request \<Rightarrow> string" where
  \<comment> \<open>the type in the specification's words: the \<open>branchRef\<close> before its first \<open>/\<close>,
      lower-cased, or \<open>unknown\<close> when there is no separator or no branch metadata\<close>
  "spec_prType pr =
     (case pr_head_ref pr of
        None \<Rightarrow> ''unknown''
      | Some ref \<Rightarrow>
          if CHR ''/'' \<in> set ref
          then toLowerCase (takeWhile (\<lambda>ch. ch \<noteq> CHR ''/'') ref)
          else ''unknown'')"

subsection \<open>calculateYearlyStats\<close>

text \<open>The per-repository record the aggregator builds, and the yearly rollup over it.\<close>

record repo_stats =
  rs_name :: string
  rs_stars :: int
  rs_contributorStats :: "contributor list"
  rs_issues_opened :: int
  rs_issues_closed :: int
  rs_monthlyStats :: "month_stat list"
  rs_prs_opened :: int
  rs_prs_closed :: int
  rs_prs_types :: jsobj
  rs_createdAt :: int
  rs_archivedAt :: "int option"

record yearly_stats =
  repositories_created :: int
  repositories_archived :: int
  commits :: int
  issues_opened :: int
  issues_closed :: int
  pullRequests_opened :: int
  pullRequests_closed :: int
  pullRequests_types :: jsobj

definition calculateYearlyStats :: "calendar \<Rightarrow> repo_stats list \<Rightarrow> int \<Rightarrow> yearly_stats" where
  "calculateYearlyStats cal repoStats currentYear =
     \<lparr>repositories_created =
        int (length (filter (\<lambda>repo. getFullYear cal (rs_createdAt repo) = currentYear) repoStats)),
      repositories_archived =
        int (length (filter (\<lambda>repo. case rs_archivedAt repo of
                                         None \<Rightarrow> False
                                       | Some a \<Rightarrow> getFullYear cal a = currentYear) repoStats)),
      commits =
        foldl (\<lambda>sum repo. sum +
                 foldl (\<lambda>tot contributor. tot +
                          foldl (\<lambda>weekSum week. weekSum + c week) 0
                            (filter (\<lambda>week. getFullYear cal (w week * 1000) = currentYear)
                               (weeks contributor)))
                   0 (rs_contributorStats repo))
          0 repoStats,
      issues_opened = foldl (\<lambda>sum repo. sum + rs_issues_opened repo) 0 repoStats,
      issues_closed = foldl (\<lambda>sum repo. sum + rs_issues_closed repo) 0 repoStats,
      pullRequests_opened = foldl (\<lambda>sum repo. sum + rs_prs_opened repo) 0 repoStats,
      pullRequests_closed = foldl (\<lambda>sum repo. sum + rs_prs_closed repo) 0 repoStats,
      pullRequests_types =
        foldl (\<lambda>types repo.
                 foldl (\<lambda>types (type, count). js_bump types type count) types (rs_prs_types repo))
          [] repoStats\<rparr>"

section \<open>Organization aggregator\<close>

text \<open>
  \<open>getOrganization(orgName, onProgress)\<close> of \<open>infrastructure/github-repository.js\<close>.
  The API client is a parameter: each of its operations yields its data or a thrown
  error. The cache manager's \<open>get\<close> and \<open>save\<close> are \<open>getFromCache\<close> and
  \<open>saveToCache\<close> above. The model returns, with the result, the cache afterwards, the
  calls made to \<open>onProgress\<close> and the API operations started.
\<close>

record api_client =
  api_getMembers :: "string \<Rightarrow> error + member list"
  api_getRepos :: "string \<Rightarrow> error + repo list"
  api_getContributorStats :: "string \<Rightarrow> string \<Rightarrow> error + contributor list"
  api_getIssues :: "string \<Rightarrow> string \<Rightarrow> int \<Rightarrow> error + issue list"
  api_getPullRequests :: "string \<Rightarrow> string \<Rightarrow> error + pull_request list"

datatype api_call =
  GetMembers string
| GetRepos string
| GetContributorStats string string
| GetIssues string string
| GetPullRequests string string

datatype contributors_field = ContributorCount int | ContributorArray "(string \<times> int) list"

record report_repo =
  r_name :: string
  r_stars :: int
  r_contributors :: contributors_field
  r_closedIssues :: int
  r_commitCount :: int

record report_member =
  m_login :: string
  m_contributions :: jsval

record report =
  repos :: "report_repo list"
  members :: "report_member list"
  yearlyStats :: yearly_stats
  monthlyIssueStats :: "month_stat list"

record prog =
  processed :: nat
  reported :: "(nat \<times> nat) list"

definition tick :: "bool \<Rightarrow> nat \<Rightarrow> prog \<Rightarrow> prog" where
  \<comment> \<open>\<open>processed++; if (onProgress) { onProgress(processed, totalRepos); }\<close>\<close>
  "tick onProgress totalRepos p =
     (let n = processed p + 1
      in \<lparr>processed = n,
          reported = (if onProgress then reported p @ [(n, totalRepos)] else reported p)\<rparr>)"

definition repo_task ::
  "calendar \<Rightarrow> api_client \<Rightarrow> string \<Rightarrow> int \<Rightarrow> bool \<Rightarrow> nat \<Rightarrow> repo \<Rightarrow> prog
     \<Rightarrow> repo_stats option \<times> prog" where
  \<comment> \<open>the \<open>async (repo) => { try { ... } catch (error) { ...; return null; } }\<close> of
      \<open>ownRepos.map\<close>; \<open>None\<close> is \<open>null\<close>\<close>
  "repo_task cal api org currentYear onProgress totalRepos repo p =
     (case (api_getContributorStats api org (repo_name repo),
            api_getIssues api org (repo_name repo) currentYear,
            api_getPullRequests api org (repo_name repo)) of
        (Inr contributorStats, Inr issues, Inr pullRequests) \<Rightarrow>
          (let filteredIssues = filter (\<lambda>item. \<not> i_pull_request item) issues;
               yearlyIssues =
                 filter (\<lambda>item. getFullYear cal (i_created_at item) = currentYear) filteredIssues;
               yearlyPRs =
                 filter (\<lambda>item. getFullYear cal (pr_created_at item) = currentYear) pullRequests
           in (Some \<lparr>rs_name = repo_name repo,
                     rs_stars = stargazers_count repo,
                     rs_contributorStats = contributorStats,
                     rs_issues_opened = int (length yearlyIssues),
                     rs_issues_closed =
                       int (length (filter (\<lambda>item. i_state item = ''closed'') yearlyIssues)),
                     rs_monthlyStats = calculateMonthlyIssueStats cal filteredIssues currentYear,
                     rs_prs_opened = int (length yearlyPRs),
                     rs_prs_closed =
                       int (length (filter (\<lambda>pr. pr_state pr = ''closed'') yearlyPRs)),
                     rs_prs_types = categorizePRTypes yearlyPRs,
                     rs_createdAt = repo_created_at repo,
                     rs_archivedAt = repo_archived_at repo\<rparr>,
               tick onProgress totalRepos p))
      | _ \<Rightarrow> (None, tick onProgress totalRepos p))"

fun run_tasks :: "('a \<Rightarrow> prog \<Rightarrow> 'b \<times> prog) \<Rightarrow> 'a list \<Rightarrow> prog \<Rightarrow> 'b list \<times> prog" where
  \<comment> \<open>\<open>Promise.all(ownRepos.map(task))\<close>: the results in listing order. Completions are
      taken in listing order too; \<open>tick\<close> does not look at the repository, so any other
      completion order reports the same calls.\<close>
  "run_tasks task [] p = ([], p)"
| "run_tasks task (x # xs) p =
     (let (r, p1) = task x p;
          (rs, p2) = run_tasks task xs p1
      in (r # rs, p2))"

definition member_contributions :: "calendar \<Rightarrow> int \<Rightarrow> repo_stats list \<Rightarrow> jsobj" where
  \<comment> \<open>\<open>memberStats\<close> after the \<open>repoStats.forEach\<close>; an empty login is falsy like a missing one\<close>
  "member_contributions cal currentYear repoStats =
     foldl (\<lambda>memberStats repo.
              foldl (\<lambda>memberStats contributor.
                       case author_login contributor of
                         None \<Rightarrow> memberStats
                       | Some lg \<Rightarrow>
                           if lg = [] then memberStats
                           else (let yearCommits =
                                       foldl (\<lambda>sum week. sum + c week) 0
                                         (filter (\<lambda>week. getFullYear cal (w week * 1000) = currentYear)
                                            (weeks contributor))
                                 in js_bump memberStats lg (Num yearCommits)))
                memberStats (rs_contributorStats repo))
       [] repoStats"

definition add_month :: "month_stat \<Rightarrow> month_stat \<Rightarrow> month_stat" where
  "add_month a m =
     \<lparr>opened = opened a + opened m, closed = closed a + closed m, total = total a + total m\<rparr>"

fun add_months :: "month_stat list \<Rightarrow> month_stat list \<Rightarrow> month_stat list" where
  \<comment> \<open>the \<open>monthlyStats.forEach((month, index) => ...)\<close> of the reduce: element-wise sums,
      a slot missing from the accumulator starting from zeros\<close>
  "add_months acc [] = acc"
| "add_months [] (m # ms) =
     add_month \<lparr>opened = 0, closed = 0, total = 0\<rparr> m # add_months [] ms"
| "add_months (a # acc) (m # ms) = add_month a m # add_months acc ms"

definition build_report :: "calendar \<Rightarrow> int \<Rightarrow> member list \<Rightarrow> repo_stats list \<Rightarrow> report" where
  \<comment> \<open>\<open>enhancedMembers\<close> and the object literal \<open>result\<close>\<close>
  "build_report cal currentYear mems repoStats =
     (let memberStats = member_contributions cal currentYear repoStats;
          enhancedMembers =
            map (\<lambda>m. \<lparr>m_login = login m,
                       m_contributions = js_or0 (js_get memberStats (login m))\<rparr>) mems
      in \<lparr>repos =
            map (\<lambda>rs. \<lparr>r_name = rs_name rs,
                        r_stars = rs_stars rs,
                        r_contributors = ContributorCount (int (length (rs_contributorStats rs))),
                        r_closedIssues = rs_issues_closed rs,
                        r_commitCount =
                          foldl (\<lambda>sum contributor. sum +
                                   foldl (\<lambda>weekSum week. weekSum +
                                            (if getFullYear cal (w week * 1000) = currentYear
                                             then c week else 0))
                                     0 (weeks contributor))
                            0 (rs_contributorStats rs)\<rparr>) repoStats,
          members = enhancedMembers,
          yearlyStats = calculateYearlyStats cal repoStats currentYear,
          monthlyIssueStats =
            foldl (\<lambda>acc repo. add_months acc (rs_monthlyStats repo))
              (replicate 12 \<lparr>opened = 0, closed = 0, total = 0\<rparr>) repoStats\<rparr>)"

text \<open>
  What \<open>JSON.parse(JSON.stringify(report))\<close> gives back. Numbers and strings come back as
  they are. A property whose value is a function is left out of the text, and the
  prototype object, which has no enumerable property of its own, is written as \<open>{}\<close>.
\<close>

fun json_value :: "jsval \<Rightarrow> jsval" where
  "json_value (Inherited k) = (if k = ''__proto__'' then EmptyObject else Missing)"
| "json_value v = v"

definition json_object :: "jsobj \<Rightarrow> jsobj" where
  "json_object obj =
     filter (\<lambda>(k, v). v \<noteq> Missing) (map (\<lambda>(k, v). (k, json_value v)) obj)"

definition json_report :: "report \<Rightarrow> report" where
  "json_report rep =
     rep\<lparr>members := map (\<lambda>m. m\<lparr>m_contributions := json_value (m_contributions m)\<rparr>) (members rep),
         yearlyStats := (yearlyStats rep)
           \<lparr>pullRequests_types := json_object (pullRequests_types (yearlyStats rep))\<rparr>\<rparr>"

definition cache_save :: "int \<Rightarrow> string \<Rightarrow> report \<Rightarrow> report storage \<Rightarrow> report storage" where
  \<comment> \<open>\<open>save(key, report)\<close>: the item written is \<open>JSON.stringify\<close> of the entry, so the
      payload a later read finds is the report as JSON gives it back\<close>
  "cache_save now key rep st = saveToCache now key (json_report rep) st"

definition plain :: "jsval \<Rightarrow> bool" where
  \<comment> \<open>a number or a string\<close>
  "plain v = (case v of Num n \<Rightarrow> True | NonNumber \<Rightarrow> True | _ \<Rightarrow> False)"

definition plain_object :: "jsobj \<Rightarrow> bool" where
  "plain_object obj = (\<forall>kv\<in>set obj. plain (snd kv))"

definition json_safe :: "report \<Rightarrow> bool" where
  \<comment> \<open>every member's contributions and every value of the pull-request histogram is a
      number or a string\<close>
  "json_safe rep =
     ((\<forall>m\<in>set (members rep). plain (m_contributions m))
      \<and> (\<forall>kv\<in>set (pullRequests_types (yearlyStats rep)). plain (snd kv)))"

record outcome =
  result :: "error + report"
  store :: "report storage"
  progress :: "(nat \<times> nat) list"
  requests :: "api_call list"

definition getOrganization ::
  "calendar \<Rightarrow> api_client \<Rightarrow> int \<Rightarrow> int \<Rightarrow> string \<Rightarrow> bool \<Rightarrow> report storage \<Rightarrow> outcome" where
  \<comment> \<open>\<open>now\<close> is the clock when the call starts (the cache lookup and the current year are
      read before the first \<open>await\<close>), \<open>later\<close> the clock at the cache write;
      \<open>onProgress\<close> says whether a callback was passed. When both listings fail the
      error of the members listing is the one thrown.\<close>
  "getOrganization cal api now later org onProgress st =
     (case getFromCache now org st of
        (Some cachedData, st1) \<Rightarrow>
          \<lparr>result = Inr cachedData, store = st1, progress = [], requests = []\<rparr>
      | (None, st1) \<Rightarrow>
          (let currentYear = getFullYear cal now;
               listings = [GetMembers org, GetRepos org]
           in case (api_getMembers api org, api_getRepos api org) of
                (Inl e, _) \<Rightarrow>
                  \<lparr>result = Inl e, store = st1, progress = [], requests = listings\<rparr>
              | (Inr mems, Inl e) \<Rightarrow>
                  \<lparr>result = Inl e, store = st1, progress = [], requests = listings\<rparr>
              | (Inr mems, Inr allRepos) \<Rightarrow>
                  (let ownRepos = filter (\<lambda>repo. \<not> fork repo) allRepos;
                       totalRepos = length ownRepos;
                       (results, p) =
                         run_tasks (repo_task cal api org currentYear onProgress totalRepos)
                           ownRepos \<lparr>processed = 0, reported = []\<rparr>;
                       repoStats = List.map_filter (\<lambda>r. r) results;
                       res = build_report cal currentYear mems repoStats
                   in \<lparr>result = Inr res,
                       store = cache_save later org res st1,
                       progress = reported p,
                       requests = listings @
                         concat (map (\<lambda>repo. [GetContributorStats org (repo_name repo),
                                               GetIssues org (repo_name repo),
                                               GetPullRequests org (repo_name repo)]) ownRepos)\<rparr>)))"

subsection \<open>The per-repository issue counts of the date-range aggregator\<close>

text \<open>
  The variant \<open>getOrganization(orgName, dateRange, onProgress)\<close> filters by the range
  instead of the current year. \<open>filteredIssues\<close> is the list it counts as opened
  (\<open>opened: filteredIssues.length\<close>), \<open>closedIssues\<close> the list it counts as closed.
\<close>

definition filteredIssues :: "int \<Rightarrow> int \<Rightarrow> issue list \<Rightarrow> issue list" where
  "filteredIssues fromDate toDate issues =
     filter (\<lambda>item. let createdAt = i_created_at item
                    in createdAt \<ge> fromDate \<and> createdAt \<le> toDate)
       (filter (\<lambda>item. \<not> i_pull_request item) issues)"



section \<open>Organization view model\<close>

record organization =
  org_name :: string
  org_repos :: "report_repo list"
  org_members :: "report_member list"
  org_yearlyStats :: yearly_stats

definition organization_of :: "string \<Rightarrow> report \<Rightarrow> organization" where
  \<comment> \<open>\<open>new Organization(name, orgData.repos, orgData.members, orgData.yearlyStats)\<close>\<close>
  "organization_of name rep =
     \<lparr>org_name = name, org_repos = repos rep, org_members = members rep,
      org_yearlyStats = yearlyStats rep\<rparr>"

definition getMostActiveMembers :: "nat \<Rightarrow> organization \<Rightarrow> (string \<times> int) list" where
  \<comment> \<open>the \<open>Map\<close> is an association list in insertion order; \<open>sort\<close> is stable\<close>
  "getMostActiveMembers limit org =
     (let memberStats0 = foldl (\<lambda>ms m. AList.update (m_login m) 0 ms) [] (org_members org);
          memberStats =
            foldl (\<lambda>ms repo.
                     case r_contributors repo of
                       ContributorCount n \<Rightarrow> ms
                     | ContributorArray contributors \<Rightarrow>
                         foldl (\<lambda>ms (lg, contributions).
                                  case map_of ms lg of
                                    None \<Rightarrow> ms
                                  | Some current \<Rightarrow> AList.update lg (current + contributions) ms)
                           ms contributors)
              memberStats0 (org_repos org)
      in take limit (sort_key (\<lambda>(lg, n). - n) memberStats))"

definition report_repos :: "outcome \<Rightarrow> report_repo list option" where
  \<comment> \<open>the \<open>repos\<close> array of the report returned, if one is\<close>
  "report_repos out = (case result out of Inl e \<Rightarrow> None | Inr rep \<Rightarrow> Some (repos rep))"

definition report_members :: "outcome \<Rightarrow> report_member list option" where
  \<comment> \<open>the \<open>members\<close> array of the report returned, if one is\<close>
  "report_members out = (case result out of Inl e \<Rightarrow> None | Inr rep \<Rightarrow> Some (members rep))"

definition top_members :: "nat \<Rightarrow> outcome \<Rightarrow> (string \<times> int) list option" where
  \<comment> \<open>what the dashboard computes: \<open>getMostActiveMembers\<close> on the organization built from
      the report returned\<close>
  "top_members limit out =
     (case result out of
        Inl e \<Rightarrow> None
      | Inr rep \<Rightarrow> Some (getMostActiveMembers limit (organization_of [] rep)))"

section \<open>Concrete inputs\<close>

text \<open>
  Times used below, in UTC: 15 February 2024 12:00 is 1707998400000, 15 April 2024 12:00
  is 1713182400000, 15 June 2024 12:00 is 1718452800000; the week starting 15 February
  2024 00:00 is 1707955200 in seconds.
\<close>

definition issue_feb_apr :: issue where
  \<comment> \<open>an issue created in February 2024 and closed in April 2024\<close>
  "issue_feb_apr =
     \<lparr>i_pull_request = False, i_created_at = 1707998400000,
      i_closed_at = Some 1713182400000, i_state = ''closed''\<rparr>"



definition pr_of :: "string \<Rightarrow> string option \<Rightarrow> pull_request" where
  \<comment> \<open>a pull request created on 15 February 2024 with the given state and head ref\<close>
  "pr_of st r = \<lparr>pr_created_at = 1707998400000, pr_state = st, pr_head_ref = r\<rparr>"

definition acme_api :: api_client where
  \<comment> \<open>an organization with one member and two repositories of its own; the issues
      listing of the repository \<open>api\<close> fails with a network error\<close>
  "acme_api =
     \<lparr>api_getMembers = (\<lambda>org. Inr [\<lparr>login = ''alice''\<rparr>]),
      api_getRepos = (\<lambda>org. Inr
         [\<lparr>repo_name = ''web'', stargazers_count = 3, fork = False,
           repo_created_at = 1707998400000, repo_archived_at = None\<rparr>,
          \<lparr>repo_name = ''api'', stargazers_count = 1, fork = False,
           repo_created_at = 1707998400000, repo_archived_at = None\<rparr>]),
      api_getContributorStats = (\<lambda>org name. Inr
         [\<lparr>author_login = Some ''alice'', weeks = [\<lparr>w = 1707955200, c = 5\<rparr>]\<rparr>]),
      api_getIssues = (\<lambda>org name since.
         if name = ''api'' then Inl NetworkError else Inr [issue_feb_apr]),
      api_getPullRequests = (\<lambda>org name. Inr [])\<rparr>"

definition acme_report :: report where
  \<comment> \<open>the report of \<open>acme_api\<close> in June 2024\<close>
  "acme_report =
     \<lparr>repos = [\<lparr>r_name = ''web'', r_stars = 3, r_contributors = ContributorCount 1,
                r_closedIssues = 1, r_commitCount = 5\<rparr>],
      members = [\<lparr>m_login = ''alice'', m_contributions = Num 5\<rparr>],
      yearlyStats =
        \<lparr>repositories_created = 1, repositories_archived = 0, commits = 5,
         issues_opened = 1, issues_closed = 1,
         pullRequests_opened = 0, pullRequests_closed = 0, pullRequests_types = []\<rparr>,
      monthlyIssueStats =
        [\<lparr>opened = 0, closed = 0, total = 0\<rparr>, \<lparr>opened = 1, closed = 0, total = 0\<rparr>,
         \<lparr>opened = 0, closed = 0, total = 0\<rparr>, \<lparr>opened = 0, closed = 1, total = 0\<rparr>,
         \<lparr>opened = 0, closed = 0, total = 0\<rparr>, \<lparr>opened = 0, closed = 0, total = 0\<rparr>,
         \<lparr>opened = 0, closed = 0, total = 0\<rparr>, \<lparr>opened = 0, closed = 0, total = 0\<rparr>,
         \<lparr>opened = 0, closed = 0, total = 0\<rparr>, \<lparr>opened = 0, closed = 0, total = 0\<rparr>,
         \<lparr>opened = 0, closed = 0, total = 0\<rparr>, \<lparr>opened = 0, closed = 0, total = 0\<rparr>]\<rparr>"

definition ctor_api :: api_client where
  \<comment> \<open>an organization with no repository and one member, whose login is the name of a
      property of \<open>Object.prototype\<close>\<close>
  "ctor_api =
     \<lparr>api_getMembers = (\<lambda>org. Inr [\<lparr>login = ''constructor''\<rparr>]),
      api_getRepos = (\<lambda>org. Inr []),
      api_getContributorStats = (\<lambda>org name. Inr []),
      api_getIssues = (\<lambda>org name since. Inr []),
      api_getPullRequests = (\<lambda>org name. Inr [])\<rparr>"

definition ctor_report :: "jsval \<Rightarrow> report" where
  \<comment> \<open>the report of \<open>ctor_api\<close>, with the given value as the member's contributions\<close>
  "ctor_report v =
     \<lparr>repos = [],
      members = [\<lparr>m_login = ''constructor'', m_contributions = v\<rparr>],
      yearlyStats =
        \<lparr>repositories_created = 0, repositories_archived = 0, commits = 0,
         issues_opened = 0, issues_closed = 0,
         pullRequests_opened = 0, pullRequests_closed = 0, pullRequests_types = []\<rparr>,
      monthlyIssueStats = replicate 12 \<lparr>opened = 0, closed = 0, total = 0\<rparr>\<rparr>"

definition two_pages :: "request \<Rightarrow> error + nat response" where
  \<comment> \<open>a server whose first page is empty but carries the next relation, and whose second
      page holds one item and no link header\<close>
  "two_pages req =
     (if page req = 1
      then Inr \<lparr>data = [], link = Some ''<https://api.github.com/x?page=2>; rel=\"next\"''\<rparr>
      else if page req = 2 then Inr \<lparr>data = [7], link = None\<rparr>
      else Inl (HttpError 404))"

definition three_pages :: "request \<Rightarrow> error + nat response" where
  \<comment> \<open>a server with three pages of items; the last page links back only\<close>
  "three_pages req =
     (if page req = 1
      then Inr \<lparr>data = [1, 2], link = Some ''<https://api.github.com/x?page=2>; rel=\"next\"''\<rparr>
      else if page req = 2
      then Inr \<lparr>data = [3], link = Some ''<https://api.github.com/x?page=3>; rel=\"next\"''\<rparr>
      else if page req = 3
      then Inr \<lparr>data = [4, 5], link = Some ''<https://api.github.com/x?page=2>; rel=\"prev\"''\<rparr>
      else Inl (HttpError 404))"

definition always_pending :: "nat \<Rightarrow> error + stats_response" where
  "always_pending n = Inr \<lparr>status = 202, body = None\<rparr>"

definition pending_then_down :: "nat \<Rightarrow> error + stats_response" where
  \<comment> \<open>one pending answer, then the network fails\<close>
  "pending_then_down n = (if n = 0 then Inr \<lparr>status = 202, body = None\<rparr> else Inl NetworkError)"

section \<open>Strings and counters: basic facts\<close>

lemma str_includes_single: "str_includes s [ch] \<longleftrightarrow> ch \<in> set s"
  by (induction s) auto

lemma split_js_nonempty: "split_js sep s \<noteq> []"
  by (induction s) (auto split: list.splits)

lemma hd_split_js: "hd (split_js sep s) = takeWhile (\<lambda>ch. ch \<noteq> sep) s"
  by (induction s) (auto split: list.splits simp: split_js_nonempty)

lemma map_of_js_bump:
  "k \<notin> set objectPrototypeNames \<Longrightarrow>
   map_of (js_bump obj k n) = (map_of obj)(k \<mapsto> js_plus (js_or0 (map_of obj k)) n)"
  by (auto simp: js_bump_def js_set_def js_get_def update_conv' objectPrototypeNames_def
        js_or0_def split: option.splits)

lemma js_plus_assoc_num: "js_plus (js_plus x (Num a)) (Num b) = js_plus x (Num (a + b))"
  by (cases x) auto

lemma plain_js_plus: "plain (js_plus a b)"
  by (cases a; cases b) (simp_all add: plain_def)

lemma js_or0_plain: "plain v \<Longrightarrow> js_or0 (Some v) = v"
  by (cases v) (simp_all add: plain_def js_or0_def)

lemma js_or0_plus: "js_or0 (Some (js_plus a b)) = js_plus a b"
  by (rule js_or0_plain) (rule plain_js_plus)

lemma set_update_subset: "set (AList.update k v al) \<subseteq> insert (k, v) (set al)"
  by (induction al) auto

section \<open>Dates\<close>

lemma civil_month_range: "snd (civil_from_days z) < 12"
  unfolding civil_from_days_def Let_def snd_conv
  by (rule mod_less_divisor) simp

lemma utc_ok: "calendar_ok utc"
  unfolding calendar_ok_def utc_def
  by (simp only: calendar.simps civil_month_range) simp

section \<open>categorizePRTypes\<close>

lemma categorize_one_spec: "categorize_one types pr = js_bump types (spec_prType pr) (Num 1)"
  by (cases "pr_head_ref pr")
     (auto simp: categorize_one_def spec_prType_def str_includes_single hd_split_js Let_def)

lemma foldl_categorize_one:
  "\<forall>pr\<in>set prs. spec_prType pr \<notin> set objectPrototypeNames \<Longrightarrow>
   map_of (foldl categorize_one obj prs) t =
     (if filter (\<lambda>pr. spec_prType pr = t) prs = [] then map_of obj t
      else Some (js_plus (js_or0 (map_of obj t))
                   (Num (int (length (filter (\<lambda>pr. spec_prType pr = t) prs))))))"
proof (induction prs arbitrary: obj)
  case Nil
  then show ?case by simp
next
  case (Cons pr prs)
  then show ?case
    by (auto simp: categorize_one_spec map_of_js_bump js_plus_assoc_num js_or0_plus)
qed

text \<open>
  The histogram is the count of closed pull requests per type, as long as no type is the
  name of a property inherited from \<open>Object.prototype\<close>.
\<close>

lemma categorizePRTypes_counts:
  assumes "\<forall>pr\<in>set prs. pr_state pr = ''closed'' \<longrightarrow> spec_prType pr \<notin> set objectPrototypeNames"
  shows "map_of (categorizePRTypes prs) t =
     (let n = length (filter (\<lambda>pr. pr_state pr = ''closed'' \<and> spec_prType pr = t) prs)
      in if n = 0 then None else Some (Num (int n)))"
proof -
  let ?closed = "filter (\<lambda>pr. pr_state pr = ''closed'') prs"
  have "\<forall>pr\<in>set ?closed. spec_prType pr \<notin> set objectPrototypeNames"
    using assms by auto
  from foldl_categorize_one[OF this, of "[]" t]
  show ?thesis
    by (auto simp: categorizePRTypes_def Let_def js_or0_def conj_commute)
qed

lemma spec_prType_examples:
  "spec_prType (pr_of ''closed'' (Some ''feature/login'')) = ''feature''"
  "spec_prType (pr_of ''closed'' (Some ''hotfix'')) = ''unknown''"
  "spec_prType (pr_of ''closed'' None) = ''unknown''"
  by (simp_all add: spec_prType_def pr_of_def toLowerCase_def lower_char_def)

text \<open>
  C8 (the code departs from the claim). \<open>categorizePRTypes\<close> counts closed pull requests
  only and derives the type as the claim says (\<open>categorizePRTypes_counts\<close>,
  \<open>spec_prType_examples\<close>), but the value it returns for a type is not always a count:
  for a closed pull request on the branch \<open>constructor/cleanup\<close> the type is
  \<open>constructor\<close>, \<open>types["constructor"]\<close> reads the function inherited from
  \<open>Object.prototype\<close>, and \<open>(types[type] || 0) + 1\<close> stores a string instead of 1.
\<close>

theorem categorizePRTypes_inherited_key:
  "categorizePRTypes [pr_of ''closed'' (Some ''constructor/cleanup'')] = [(''constructor'', NonNumber)]"
  by (simp add: categorizePRTypes_def categorize_one_def pr_of_def js_bump_def js_set_def
        js_get_def js_or0_def toLowerCase_def lower_char_def objectPrototypeNames_def)

text \<open>
  C10. A closed pull request whose branch ref starts with the separator, such as
  \<open>/login\<close>, is given the empty string as its type, not \<open>unknown\<close>: the histogram
  returned has the single key \<open>""\<close> with count 1.
\<close>

theorem categorizePRTypes_empty_type:
  "categorizePRTypes [pr_of ''closed'' (Some (CHR ''/'' # rest))] = [([], Num 1)]
   \<and> categorizePRTypes [pr_of ''closed'' (Some ''/login'')] = [([], Num 1)]
   \<and> map_of (categorizePRTypes [pr_of ''closed'' (Some ''/login'')]) ''unknown'' = None"
  by (simp add: categorizePRTypes_def categorize_one_def pr_of_def js_bump_def js_set_def
        js_get_def js_or0_def toLowerCase_def objectPrototypeNames_def)

section \<open>Cache store\<close>

text \<open>
  C6. A read of a stored entry returns nothing and removes the entry exactly when the
  stored key differs from the requested key or the entry is older than 24 hours
  (86400000 ms); otherwise it returns the stored payload and leaves the entry. A read of
  an empty store returns nothing. A save replaces whatever the store held.
\<close>

theorem getFromCache_saveToCache_contract:
  "(getFromCache now key (Some e) = (None, None))
     = (orgName e \<noteq> key \<or> now - timestamp e > 86400000)
   \<and> (getFromCache now key (Some e) = (Some (payload e), Some e))
     = (orgName e = key \<and> now - timestamp e \<le> 86400000)
   \<and> getFromCache now key None = (None, None)
   \<and> saveToCache now key d st = Some \<lparr>timestamp = now, orgName = key, payload = d\<rparr>
   \<and> saveToCache now key d st = saveToCache now key d st'"
  by (auto simp: getFromCache_def saveToCache_def CACHE_EXPIRATION_def)

theorem getFromCache_saveToCache_contract_witness:
  "getFromCache 1718452800000 ''acme''
     (Some \<lparr>timestamp = 1718452700000, orgName = ''acme'', payload = (7::nat)\<rparr>)
     = (Some 7, Some \<lparr>timestamp = 1718452700000, orgName = ''acme'', payload = 7\<rparr>)
   \<and> getFromCache 1718452800000 ''other''
     (Some \<lparr>timestamp = 1718452700000, orgName = ''acme'', payload = (7::nat)\<rparr>) = (None, None)
   \<and> getFromCache 1718539100001 ''acme''
     (Some \<lparr>timestamp = 1718452700000, orgName = ''acme'', payload = (7::nat)\<rparr>) = (None, None)
   \<and> getFromCache 1718539100000 ''acme''
     (Some \<lparr>timestamp = 1718452700000, orgName = ''acme'', payload = (7::nat)\<rparr>)
     = (Some 7, Some \<lparr>timestamp = 1718452700000, orgName = ''acme'', payload = 7\<rparr>)"
  using getFromCache_saveToCache_contract[of 1718452800000 "''acme''"
          "\<lparr>timestamp = 1718452700000, orgName = ''acme'', payload = (7::nat)\<rparr>" "7::nat" None None]
        getFromCache_saveToCache_contract[of 1718452800000 "''other''"
          "\<lparr>timestamp = 1718452700000, orgName = ''acme'', payload = (7::nat)\<rparr>" "7::nat" None None]
        getFromCache_saveToCache_contract[of 1718539100001 "''acme''"
          "\<lparr>timestamp = 1718452700000, orgName = ''acme'', payload = (7::nat)\<rparr>" "7::nat" None None]
        getFromCache_saveToCache_contract[of 1718539100000 "''acme''"
          "\<lparr>timestamp = 1718452700000, orgName = ''acme'', payload = (7::nat)\<rparr>" "7::nat" None None]
  by auto

section \<open>Paginator\<close>

lemma served_nonempty: "served method pg pages \<Longrightarrow> pages \<noteq> []"
  by (cases pages) auto

lemma served_Cons:
  "served method pg (r # rs) \<longleftrightarrow>
     method \<lparr>page = pg, per_page = 100\<rparr> = Inr r \<and>
     (if rs = [] then \<not> has_next r else has_next r \<and> served method (pg + 1) rs)"
  by (cases rs) auto

lemma page_requests_Suc: "page_requests pg (Suc n) = \<lparr>page = pg, per_page = 100\<rparr> # page_requests (pg + 1) n"
  by (simp add: page_requests_def upt_rec[of pg] del: upt_Suc) 

lemma getAllPages_loop_served:
  "served method pg pages \<Longrightarrow>
   getAllPages_loop method acc pg True sent =
     Some (Inr (acc @ concat (map data pages)), sent @ page_requests pg (length pages))"
proof (induction pages arbitrary: pg acc sent)
  case Nil
  then show ?case by simp
next
  case (Cons r rs)
  show ?case
  proof (cases rs)
    case Nil
    with Cons.prems show ?thesis
      by (subst getAllPages_loop.simps, subst getAllPages_loop.simps)
         (simp add: page_requests_def)
  next
    case (Cons r' rs')
    with Cons.prems have m: "method \<lparr>page = pg, per_page = 100\<rparr> = Inr r" "has_next r"
      and s: "served method (pg + 1) rs" by auto
    show ?thesis
      using Cons.IH[OF s, of "acc @ data r" "sent @ [\<lparr>page = pg, per_page = 100\<rparr>]"]
      by (subst getAllPages_loop.simps) (simp add: m page_requests_Suc)
  qed
qed

lemma getAllPages_loop_only:
  assumes run: "getAllPages_loop method acc pg hnp sent = Some (Inr xs, sent')"
  shows "if hnp then \<exists>pages. served method pg pages \<and> xs = acc @ concat (map data pages)
                   \<and> sent' = sent @ page_requests pg (length pages)
         else xs = acc \<and> sent' = sent"
proof -
  define P where "P = (\<lambda>(m :: request \<Rightarrow> error + 'a response) acc pg hnp sent
      (y :: (error + 'a list) \<times> request list).
      \<forall>xs sent'. y = (Inr xs, sent') \<longrightarrow>
        (if hnp then \<exists>pages. served m pg pages \<and> xs = acc @ concat (map data pages)
                   \<and> sent' = sent @ page_requests pg (length pages)
         else xs = acc \<and> sent' = sent))"
  have "P method acc pg hnp sent (Inr xs, sent')"
  proof (rule getAllPages_loop.raw_induct[where P = P, OF _ run])
    fix f and m :: "request \<Rightarrow> error + 'a response" and acc pg hnp sent y
    assume IH: "\<And>m acc pg hnp sent y. f m acc pg hnp sent = Some y \<Longrightarrow> P m acc pg hnp sent y"
      and body: "(if hnp then
          (let req = \<lparr>page = pg, per_page = 100\<rparr>
           in case m req of
                Inl e \<Rightarrow> Some (Inl e, sent @ [req])
              | Inr resp \<Rightarrow> f m (acc @ data resp) (pg + 1) (has_next resp) (sent @ [req]))
        else Some (Inr acc, sent)) = Some y"
    show "P m acc pg hnp sent y"
      unfolding P_def
    proof (intro allI impI)
      fix xs sent'
      assume y: "y = (Inr xs, sent')"
      show "if hnp then \<exists>pages. served m pg pages \<and> xs = acc @ concat (map data pages)
                   \<and> sent' = sent @ page_requests pg (length pages)
            else xs = acc \<and> sent' = sent"
      proof (cases hnp)
        case False
        with body y show ?thesis by simp
      next
        case True
        let ?req = "\<lparr>page = pg, per_page = 100\<rparr>"
        from body y True obtain r where mr: "m ?req = Inr r"
          and rec: "f m (acc @ data r) (pg + 1) (has_next r) (sent @ [?req]) = Some (Inr xs, sent')"
          by (auto simp: Let_def split: sum.splits)
        from IH[OF rec] have ih:
          "if has_next r
           then \<exists>pages. served m (pg + 1) pages \<and> xs = (acc @ data r) @ concat (map data pages)
                   \<and> sent' = (sent @ [?req]) @ page_requests (pg + 1) (length pages)
           else xs = acc @ data r \<and> sent' = sent @ [?req]"
          unfolding P_def by blast
        show ?thesis
        proof (cases "has_next r")
          case False
          with ih have "xs = acc @ data r" "sent' = sent @ [?req]" by auto
          moreover have "served m pg [r]" using mr False by simp
          ultimately have "\<exists>pages. served m pg pages \<and> xs = acc @ concat (map data pages)
              \<and> sent' = sent @ page_requests pg (length pages)"
            by (intro exI[of _ "[r]"]) (simp add: page_requests_def)
          then show ?thesis using True by simp
        next
          case hn: True
          with ih obtain pages where p: "served m (pg + 1) pages"
            "xs = (acc @ data r) @ concat (map data pages)"
            "sent' = (sent @ [?req]) @ page_requests (pg + 1) (length pages)" by auto
          from p(1) have ne: "pages \<noteq> []" by (rule served_nonempty)
          have "served m pg (r # pages)"
            using mr hn p(1) ne by (simp add: served_Cons)
          moreover have "xs = acc @ concat (map data (r # pages))" using p(2) by simp
          moreover have "sent' = sent @ page_requests pg (length (r # pages))"
            using p(3) by (simp add: page_requests_Suc)
          ultimately have "\<exists>pages. served m pg pages \<and> xs = acc @ concat (map data pages)
              \<and> sent' = sent @ page_requests pg (length pages)"
            by (intro exI[of _ "r # pages"]) simp
          then show ?thesis using True by simp
        qed
      qed
    qed
  qed
  then show ?thesis unfolding P_def by blast
qed

text \<open>
  A server that answers every request with a page carrying the next relation, empty
  pages included, keeps the loop running for ever.
\<close>

lemma getAllPages_endless:
  assumes more: "\<And>req. \<exists>r. method req = Inr r \<and> has_next r"
  shows "getAllPages method = None"
proof (rule ccontr)
  assume "getAllPages method \<noteq> None"
  then obtain y where run: "getAllPages_loop method [] 1 True [] = Some y"
    by (auto simp: getAllPages_def)
  define P where "P = (\<lambda>(m :: request \<Rightarrow> error + 'a response) (acc :: 'a list) (pg :: nat)
      (hnp :: bool) (sent :: request list) (y :: (error + 'a list) \<times> request list).
      \<not> (m = method \<and> hnp))"
  have "P method [] 1 True [] y"
  proof (rule getAllPages_loop.raw_induct[where P = P, OF _ run])
    fix f and m :: "request \<Rightarrow> error + 'a response" and acc pg hnp sent y
    assume IH: "\<And>m acc pg hnp sent y. f m acc pg hnp sent = Some y \<Longrightarrow> P m acc pg hnp sent y"
      and body: "(if hnp then
          (let req = \<lparr>page = pg, per_page = 100\<rparr>
           in case m req of
                Inl e \<Rightarrow> Some (Inl e, sent @ [req])
              | Inr resp \<Rightarrow> f m (acc @ data resp) (pg + 1) (has_next resp) (sent @ [req]))
        else Some (Inr acc, sent)) = Some y"
    show "P m acc pg hnp sent y"
      unfolding P_def
    proof
      assume a: "m = method \<and> hnp"
      from more obtain r where r: "method \<lparr>page = pg, per_page = 100\<rparr> = Inr r" "has_next r"
        by blast
      from body a r have "f method (acc @ data r) (pg + 1) True (sent @ [\<lparr>page = pg, per_page = 100\<rparr>]) = Some y"
        by (simp add: Let_def)
      from IH[OF this] show False by (simp add: P_def)
    qed
  qed
  then show False by (simp add: P_def)
qed

text \<open>
  C7 (as amended). The paginator returns a list exactly for a server that answers the
  pages 1, 2, ..., n so that every page but the last carries the next relation and the
  last one does not; the list is then the concatenation of all the pages' items in the
  order served, and the requests issued are those for pages 1 to n, each with page size
  100. The loop stops at the first response without the next relation and at no other: an
  empty page that carries the next relation does not stop it.
\<close>

theorem getAllPages_drains:
  "getAllPages method = Some (Inr xs, sent) \<longleftrightarrow>
     (\<exists>pages. served method 1 pages \<and> xs = concat (map data pages)
        \<and> sent = page_requests 1 (length pages))"
  using getAllPages_loop_only[of "method" "[]" 1 True "[]" xs sent]
        getAllPages_loop_served[of "method" 1 _ "[]" "[]"]
  by (auto simp: getAllPages_def)

theorem getAllPages_drains_witness:
  "getAllPages three_pages =
     Some (Inr [1, 2, 3, 4, 5],
           [\<lparr>page = 1, per_page = 100\<rparr>, \<lparr>page = 2, per_page = 100\<rparr>, \<lparr>page = 3, per_page = 100\<rparr>])"
proof -
  let ?pages = "[\<lparr>data = [1, 2], link = Some ''<https://api.github.com/x?page=2>; rel=\"next\"''\<rparr>,
                 \<lparr>data = [3], link = Some ''<https://api.github.com/x?page=3>; rel=\"next\"''\<rparr>,
                 \<lparr>data = [4, 5::nat], link = Some ''<https://api.github.com/x?page=2>; rel=\"prev\"''\<rparr>]"
  have "served three_pages 1 ?pages"
    by (simp add: three_pages_def has_next_def)
  then have "\<exists>pages. served three_pages 1 pages \<and> [1, 2, 3, 4, 5] = concat (map data pages)
      \<and> [\<lparr>page = 1, per_page = 100\<rparr>, \<lparr>page = 2, per_page = 100\<rparr>, \<lparr>page = 3, per_page = 100\<rparr>]
          = page_requests 1 (length pages)"
    by (intro exI[of _ ?pages]) (simp add: page_requests_def upt_rec)
  then show ?thesis
    by (simp only: getAllPages_drains)
qed

text \<open>
  The claim as stated fails: the first page of \<open>two_pages\<close> is empty, yet the loop goes on
  to request the second page and returns its item.
\<close>

theorem getAllPages_empty_page_counterexample:
  "two_pages \<lparr>page = 1, per_page = 100\<rparr>
     = Inr \<lparr>data = [], link = Some ''<https://api.github.com/x?page=2>; rel=\"next\"''\<rparr>
   \<and> getAllPages two_pages
     = Some (Inr [7], [\<lparr>page = 1, per_page = 100\<rparr>, \<lparr>page = 2, per_page = 100\<rparr>])"
proof -
  have "served two_pages 1
          [\<lparr>data = [], link = Some ''<https://api.github.com/x?page=2>; rel=\"next\"''\<rparr>,
           \<lparr>data = [7], link = None\<rparr>]"
    by (simp add: two_pages_def has_next_def)
  from getAllPages_loop_served[OF this, of "[]" "[]"]
  show ?thesis
    by (simp add: getAllPages_def page_requests_def upt_rec two_pages_def)
qed

section \<open>Contributor statistics with retry\<close>

lemma retry_run:
  assumes "k \<le> retries"
    and "\<forall>i<k. \<exists>r. server (calls st + i) = Inr r \<and> status r = 202"
    and "k = retries \<or> (\<forall>r. server (calls st + k) = Inr r \<longrightarrow> status r \<noteq> 202)"
  shows "getContributorStatsWithRetry server retries st =
           (final_value (server (calls st + k)),
            st\<lparr>calls := calls st + (k + 1), sleeps := sleeps st @ replicate k 1000\<rparr>)"
  using assms
proof (induction k arbitrary: retries st)
  case 0
  then show ?case
    by (subst getContributorStatsWithRetry.simps)
       (auto simp: final_value_def Let_def split: sum.splits)
next
  case (Suc k)
  from Suc.prems(2) obtain r where r: "server (calls st) = Inr r" "status r = 202"
    by force
  let ?st = "st\<lparr>calls := calls st + 1, sleeps := sleeps st @ [1000]\<rparr>"
  have pre: "\<forall>i<k. \<exists>r. server (calls ?st + i) = Inr r \<and> status r = 202"
  proof (intro allI impI)
    fix i assume "i < k"
    then have "Suc i < Suc k" by simp
    with Suc.prems(2) obtain r' where "server (calls st + Suc i) = Inr r' \<and> status r' = 202"
      by blast
    then show "\<exists>r. server (calls ?st + i) = Inr r \<and> status r = 202" by simp
  qed
  have last: "k = retries - 1 \<or> (\<forall>r. server (calls ?st + k) = Inr r \<longrightarrow> status r \<noteq> 202)"
    using Suc.prems(1,3) by auto
  have le: "k \<le> retries - 1" using Suc.prems(1) by simp
  have pos: "retries > 0" using Suc.prems(1) by simp
  show ?case
    using Suc.IH[OF le pre last] r pos
    by (subst getContributorStatsWithRetry.simps)
       (simp add: Let_def)
qed

text \<open>
  C4. With the default of three retries: when the call is answered with the pending status
  every time, it is made four times in all (the call and three retries), with a wait of
  1000 ms before each retry, and the result is empty; when an attempt throws, after any
  number of pending answers, the result is empty and no error reaches the caller; and an
  attempt answered with the statistics ends the retries with that array.
\<close>

theorem getContributorStatsWithRetry_bounded:
  "((\<forall>i\<le>3. \<exists>r. server (calls st + i) = Inr r \<and> pending r) \<longrightarrow>
      getContributorStatsWithRetry server default_retries st =
        ([], st\<lparr>calls := calls st + 4, sleeps := sleeps st @ [1000, 1000, 1000]\<rparr>))
   \<and> ((k \<le> 3 \<and> (\<forall>i<k. \<exists>r. server (calls st + i) = Inr r \<and> pending r)
         \<and> server (calls st + k) = Inl e) \<longrightarrow>
      getContributorStatsWithRetry server default_retries st =
        ([], st\<lparr>calls := calls st + (k + 1), sleeps := sleeps st @ replicate k 1000\<rparr>))
   \<and> ((k \<le> 3 \<and> (\<forall>i<k. \<exists>r. server (calls st + i) = Inr r \<and> pending r)
         \<and> server (calls st + k) = Inr ok \<and> status ok \<noteq> 202 \<and> body ok = Some d) \<longrightarrow>
      getContributorStatsWithRetry server default_retries st =
        (d, st\<lparr>calls := calls st + (k + 1), sleeps := sleeps st @ replicate k 1000\<rparr>))"
proof (intro conjI impI)
  assume a: "\<forall>i\<le>3. \<exists>r. server (calls st + i) = Inr r \<and> pending r"
  then have p: "\<forall>i<3. \<exists>r. server (calls st + i) = Inr r \<and> status r = 202"
    by (auto simp: pending_def) (metis less_or_eq_imp_le)
  from a obtain r where r: "server (calls st + 3) = Inr r" "pending r" by blast
  from retry_run[of 3 3 server st, OF _ p] r
  show "getContributorStatsWithRetry server default_retries st =
        ([], st\<lparr>calls := calls st + 4, sleeps := sleeps st @ [1000, 1000, 1000]\<rparr>)"
    by (simp add: default_retries_def final_value_def pending_def numeral_3_eq_3)
next
  assume a: "k \<le> 3 \<and> (\<forall>i<k. \<exists>r. server (calls st + i) = Inr r \<and> pending r)
         \<and> server (calls st + k) = Inl e"
  then have p: "\<forall>i<k. \<exists>r. server (calls st + i) = Inr r \<and> status r = 202"
    by (auto simp: pending_def)
  from a have l: "k = 3 \<or> (\<forall>r. server (calls st + k) = Inr r \<longrightarrow> status r \<noteq> 202)" by simp
  from retry_run[of k 3 server st, OF _ p l] a
  show "getContributorStatsWithRetry server default_retries st =
        ([], st\<lparr>calls := calls st + (k + 1), sleeps := sleeps st @ replicate k 1000\<rparr>)"
    by (simp add: default_retries_def final_value_def)
next
  assume a: "k \<le> 3 \<and> (\<forall>i<k. \<exists>r. server (calls st + i) = Inr r \<and> pending r)
         \<and> server (calls st + k) = Inr ok \<and> status ok \<noteq> 202 \<and> body ok = Some d"
  then have p: "\<forall>i<k. \<exists>r. server (calls st + i) = Inr r \<and> status r = 202"
    by (auto simp: pending_def)
  from a have l: "k = 3 \<or> (\<forall>r. server (calls st + k) = Inr r \<longrightarrow> status r \<noteq> 202)" by simp
  from retry_run[of k 3 server st, OF _ p l] a
  show "getContributorStatsWithRetry server default_retries st =
        (d, st\<lparr>calls := calls st + (k + 1), sleeps := sleeps st @ replicate k 1000\<rparr>)"
    by (simp add: default_retries_def final_value_def)
qed

theorem getContributorStatsWithRetry_bounded_witness:
  "getContributorStatsWithRetry always_pending default_retries \<lparr>calls = 0, sleeps = []\<rparr>
     = ([], \<lparr>calls = 4, sleeps = [1000, 1000, 1000]\<rparr>)
   \<and> getContributorStatsWithRetry pending_then_down default_retries \<lparr>calls = 0, sleeps = []\<rparr>
     = ([], \<lparr>calls = 2, sleeps = [1000]\<rparr>)"
  using getContributorStatsWithRetry_bounded[of always_pending "\<lparr>calls = 0, sleeps = []\<rparr>"]
        getContributorStatsWithRetry_bounded[of pending_then_down "\<lparr>calls = 0, sleeps = []\<rparr>" 1 NetworkError]
  by (simp add: always_pending_def pending_then_down_def pending_def)

section \<open>calculateMonthlyIssueStats\<close>

lemma fill_totals_length: "length (fill_totals i v ms) = length ms"
  by (induction i v ms rule: fill_totals.induct) (subst fill_totals.simps, simp)

lemma fill_totals_total:
  "j < length ms \<Longrightarrow>
   total (fill_totals i v ms ! j) = (if i \<le> j \<and> j < 12 then v else total (ms ! j))"
proof (induction i v ms rule: fill_totals.induct)
  case (1 i v ms)
  show ?case
  proof (cases "i < 12")
    case False
    then show ?thesis by (subst fill_totals.simps) simp
  next
    case True
    have "total (fill_totals (i + 1) v (ms[i := (ms ! i)\<lparr>total := v\<rparr>]) ! j) =
            (if i + 1 \<le> j \<and> j < 12 then v else total (ms[i := (ms ! i)\<lparr>total := v\<rparr>] ! j))"
      using 1 True by simp
    then show ?thesis
      using True 1(2) by (subst fill_totals.simps) (auto simp: nth_list_update)
  qed
qed

lemma monthly_step_carried:
  assumes "carried m acc" "0 < m" "m < 12"
    and "getFullYear cal (i_created_at issue) = year \<longrightarrow> getMonth cal (i_created_at issue) \<noteq> m"
  shows "carried m (monthly_step cal year acc issue)"
proof -
  obtain ms rt where acc: "acc = (ms, rt)" by (cases acc)
  from assms(1) acc have len: "length ms = 12" and eq: "total (ms ! m) = total (ms ! (m - 1))"
    by (auto simp: carried_def)
  have upd_o: "total (xs[k := (xs ! k)\<lparr>opened := x\<rparr>] ! j) = total (xs ! j)"
    if "j < length xs" for xs :: "month_stat list" and k j x
    using that by (cases "k = j") auto
  have upd_c: "total (xs[k := (xs ! k)\<lparr>closed := x\<rparr>] ! j) = total (xs ! j)"
    if "j < length xs" for xs :: "month_stat list" and k j x
    using that by (cases "k = j") auto
  have m1: "m - 1 < 12" using assms(3) by simp
  show ?thesis
    using assms(2,3,4) len eq m1
    by (auto simp: carried_def monthly_step_def acc Let_def fill_totals_length fill_totals_total
          upd_o upd_c split: option.splits)
qed

lemma foldl_carried:
  assumes "carried m acc" "0 < m" "m < 12"
    and "\<forall>issue\<in>set xs. getFullYear cal (i_created_at issue) = year
           \<longrightarrow> getMonth cal (i_created_at issue) \<noteq> m"
  shows "carried m (foldl (monthly_step cal year) acc xs)"
  using assms
proof (induction xs arbitrary: acc)
  case Nil
  then show ?case by simp
next
  case (Cons x xs)
  have "carried m (monthly_step cal year acc x)"
    using Cons.prems by (intro monthly_step_carried) auto
  then show ?case using Cons by simp
qed

lemma total_carries_forward:
  assumes "0 < m" "m < 12"
    and "\<forall>issue\<in>set issues. \<not> i_pull_request issue \<and> getFullYear cal (i_created_at issue) = year
           \<longrightarrow> getMonth cal (i_created_at issue) \<noteq> m"
  shows "total (calculateMonthlyIssueStats cal issues year ! m) =
         total (calculateMonthlyIssueStats cal issues year ! (m - 1))"
proof -
  let ?sorted = "sort_key i_created_at (filter (\<lambda>issue. \<not> i_pull_request issue) issues)"
  have init: "carried m (replicate 12 \<lparr>opened = 0, closed = 0, total = 0\<rparr>, 0)"
    using assms(2) by (simp add: carried_def)
  have "\<forall>issue\<in>set ?sorted. getFullYear cal (i_created_at issue) = year
           \<longrightarrow> getMonth cal (i_created_at issue) \<noteq> m"
    using assms(3) by auto
  from foldl_carried[OF init assms(1,2) this]
  show ?thesis by (simp add: calculateMonthlyIssueStats_def carried_def Let_def)
qed


text \<open>
  C3 (the code departs from the claim). For one issue created in February 2024 and
  closed in April 2024 the code reports, for 2024, February with \<open>opened = 1\<close>,
  \<open>closed = 0\<close> and \<open>total = 0\<close> after a January total of 0: the closure is taken off
  the running total when the issue is processed, so it lowers the totals from the month
  of creation on, not from the month of closure. The recurrence of the claim would give
  February the total \<open>0 + 1 - 0 = 1\<close>. The carry-forward half of the claim holds
  (\<open>total_carries_forward\<close>).
\<close>

theorem calculateMonthlyIssueStats_later_close:
  "map (\<lambda>m. (opened m, closed m, total m)) (calculateMonthlyIssueStats utc [issue_feb_apr] 2024) =
     [(0, 0, 0), (1, 0, 0), (0, 0, 0), (0, 1, 0), (0, 0, 0), (0, 0, 0),
      (0, 0, 0), (0, 0, 0), (0, 0, 0), (0, 0, 0), (0, 0, 0), (0, 0, 0)]"
  by code_simp


section \<open>Issue counts of the aggregator\<close>




section \<open>Organization aggregator\<close>

lemma acme_outcome:
  "getOrganization utc acme_api 1718452800000 1718452860000 ''acme'' True None =
     \<lparr>result = Inr acme_report,
      store = Some \<lparr>timestamp = 1718452860000, orgName = ''acme'', payload = acme_report\<rparr>,
      progress = [(1, 2), (2, 2)],
      requests = [GetMembers ''acme'', GetRepos ''acme'',
                  GetContributorStats ''acme'' ''web'', GetIssues ''acme'' ''web'',
                  GetPullRequests ''acme'' ''web'',
                  GetContributorStats ''acme'' ''api'', GetIssues ''acme'' ''api'',
                  GetPullRequests ''acme'' ''api'']\<rparr>"
  by code_simp

subsection \<open>What a report keeps on its way through the cache\<close>

text \<open>
  A report whose member contributions and histogram values are numbers or strings comes
  back from \<open>JSON.parse(JSON.stringify(report))\<close> as it was. The counters only ever
  hold what \<open>+\<close> produced, a number or a string, so the report that \<open>getOrganization\<close>
  builds is of that kind as soon as no member's login is the name of a property that
  every object inherits.
\<close>

lemma json_value_plain: "plain v \<Longrightarrow> json_value v = v"
  by (cases v) (simp_all add: plain_def)

lemma json_object_plain: "plain_object obj \<Longrightarrow> json_object obj = obj"
proof (induction obj)
  case Nil
  then show ?case by (simp add: json_object_def)
next
  case (Cons kv obj)
  obtain k v where kv: "kv = (k, v)" by (cases kv)
  with Cons.prems have p: "plain v" by (simp add: plain_object_def)
  then have m: "v \<noteq> Missing" by (auto simp: plain_def)
  from Cons.prems have "plain_object obj" by (simp add: plain_object_def)
  then have "json_object obj = obj" by (rule Cons.IH)
  then have "filter (\<lambda>(k, v). v \<noteq> Missing) (map (\<lambda>(k, v). (k, json_value v)) obj) = obj"
    by (simp add: json_object_def)
  with p m kv show ?case by (simp add: json_object_def json_value_plain)
qed

lemma json_members_plain:
  "\<forall>m\<in>set ms. plain (m_contributions m) \<Longrightarrow>
   map (\<lambda>m. m\<lparr>m_contributions := json_value (m_contributions m)\<rparr>) ms = ms"
  by (induction ms) (simp_all add: json_value_plain)

lemma json_report_safe: "json_safe rep \<Longrightarrow> json_report rep = rep"
  by (simp add: json_safe_def json_report_def json_members_plain json_object_plain
        plain_object_def)

lemma plain_js_bump:
  assumes "plain_object obj"
  shows "plain_object (js_bump obj k n)"
proof (cases "k = ''__proto__''")
  case True
  with assms show ?thesis by (simp add: js_bump_def js_set_def)
next
  case False
  have "set (js_bump obj k n) \<subseteq> insert (k, js_plus (js_or0 (js_get obj k)) n) (set obj)"
    using False set_update_subset by (simp add: js_bump_def js_set_def)
  with assms plain_js_plus show ?thesis
    unfolding plain_object_def by fastforce
qed

lemma foldl_keeps:
  assumes "\<And>a x. P a \<Longrightarrow> P (f a x)" and "P a"
  shows "P (foldl f a xs)"
  using assms(2) by (induction xs arbitrary: a) (simp_all add: assms(1))

lemma plain_member_contributions: "plain_object (member_contributions cal yr rss)"
  unfolding member_contributions_def
proof (rule foldl_keeps)
  show "plain_object []" by (simp add: plain_object_def)
next
  fix memberStats :: jsobj and repo :: repo_stats
  assume p: "plain_object memberStats"
  show "plain_object (foldl (\<lambda>memberStats contributor.
                       case author_login contributor of
                         None \<Rightarrow> memberStats
                       | Some lg \<Rightarrow>
                           if lg = [] then memberStats
                           else (let yearCommits =
                                       foldl (\<lambda>sum week. sum + c week) 0
                                         (filter (\<lambda>week. getFullYear cal (w week * 1000) = yr)
                                            (weeks contributor))
                                 in js_bump memberStats lg (Num yearCommits)))
                memberStats (rs_contributorStats repo))"
  proof (rule foldl_keeps)
    show "plain_object memberStats" by (rule p)
  next
    fix a :: jsobj and x :: contributor
    assume "plain_object a"
    then show "plain_object (case author_login x of
                         None \<Rightarrow> a
                       | Some lg \<Rightarrow>
                           if lg = [] then a
                           else (let yearCommits =
                                       foldl (\<lambda>sum week. sum + c week) 0
                                         (filter (\<lambda>week. getFullYear cal (w week * 1000) = yr)
                                            (weeks x))
                                 in js_bump a lg (Num yearCommits)))"
      by (simp add: plain_js_bump Let_def split: option.splits)
  qed
qed

lemma plain_yearly_types:
  "plain_object (pullRequests_types (calculateYearlyStats cal rss yr))"
proof -
  have "plain_object (foldl (\<lambda>types repo.
                 foldl (\<lambda>types (type, count). js_bump types type count) types (rs_prs_types repo))
          [] rss)"
  proof (rule foldl_keeps)
    show "plain_object []" by (simp add: plain_object_def)
  next
    fix types :: jsobj and repo :: repo_stats
    assume p: "plain_object types"
    show "plain_object (foldl (\<lambda>types (type, count). js_bump types type count) types
            (rs_prs_types repo))"
    proof (rule foldl_keeps)
      show "plain_object types" by (rule p)
    next
      fix a :: jsobj and x :: "string \<times> jsval"
      assume "plain_object a"
      then show "plain_object (case x of (type, count) \<Rightarrow> js_bump a type count)"
        by (cases x) (simp add: plain_js_bump)
    qed
  qed
  then show ?thesis by (simp add: calculateYearlyStats_def)
qed

lemma plain_enhanced_member:
  assumes "k \<notin> set objectPrototypeNames" and "plain_object obj"
  shows "plain (js_or0 (js_get obj k))"
proof (cases "map_of obj k")
  case None
  with assms(1) show ?thesis by (simp add: js_get_def js_or0_def plain_def)
next
  case (Some v)
  then have "(k, v) \<in> set obj" by (rule map_of_SomeD)
  with assms(2) have "plain v" unfolding plain_object_def by fastforce
  with Some show ?thesis by (simp add: js_get_def js_or0_plain)
qed

lemma build_report_members:
  "members (build_report cal yr mems rss) =
     map (\<lambda>m. \<lparr>m_login = login m,
                m_contributions = js_or0 (js_get (member_contributions cal yr rss) (login m))\<rparr>) mems"
  by (simp add: build_report_def Let_def)

lemma build_report_yearly:
  "yearlyStats (build_report cal yr mems rss) = calculateYearlyStats cal rss yr"
  by (simp add: build_report_def Let_def)

lemma build_report_json_safe:
  assumes "\<forall>m\<in>set mems. login m \<notin> set objectPrototypeNames"
  shows "json_safe (build_report cal yr mems rss)"
proof -
  have "\<forall>m\<in>set (members (build_report cal yr mems rss)). plain (m_contributions m)"
    unfolding build_report_members
    using assms plain_enhanced_member[OF _ plain_member_contributions] by auto
  moreover have "\<forall>kv\<in>set (pullRequests_types (yearlyStats (build_report cal yr mems rss))). plain (snd kv)"
    unfolding build_report_yearly
    using plain_yearly_types[of cal rss yr] by (simp only: plain_object_def)
  ultimately show ?thesis by (simp only: json_safe_def simp_thms)
qed

subsection \<open>Cache hit and cache miss\<close>

lemma getOrganization_hit:
  "fst (getFromCache now key st) = Some rep \<Longrightarrow>
   getOrganization cal api now later key onProgress st =
     \<lparr>result = Inr rep, store = st, progress = [], requests = []\<rparr>"
  by (auto simp: getOrganization_def getFromCache_def split: option.splits if_splits)

lemma getOrganization_miss_any:
  assumes "fst (getFromCache now key st) = None"
  shows "getOrganization cal api now later key onProgress st =
         getOrganization cal api now later key onProgress None"
proof -
  have "getFromCache now key st = (None, None)"
    using assms by (auto simp: getFromCache_def split: option.splits if_splits)
  moreover have "getFromCache now key (None :: report storage) = (None, None)"
    by (simp add: getFromCache_def)
  ultimately show ?thesis
    unfolding getOrganization_def by (simp only:)
qed

text \<open>
  C5 (as amended). If \<open>save(key, report)\<close> was the most recent operation on the cache
  (no later save, and no later read under another key) and the entry is no older than
  the TTL, then a \<open>getOrganization\<close> for the same key returns the report as
  \<open>JSON.parse(JSON.stringify(report))\<close> gives it back, starts no API operation, never
  calls \<open>onProgress\<close>, and leaves the store as the save left it. What comes back is
  identical to the report written when every member's contributions and every value of
  the pull-request histogram is a number or a string, and every report that
  \<open>getOrganization\<close> builds is of that kind when no member's login is the name of a
  property that every object inherits. More generally, whenever the cache lookup of
  \<open>getOrganization\<close> finds a payload, that payload is returned with no API operation
  started, no call of \<open>onProgress\<close> and the store unchanged.
\<close>

theorem getOrganization_cache_hit:
  "(now - saved \<le> CACHE_EXPIRATION \<longrightarrow>
      getOrganization cal api now later key onProgress (cache_save saved key rep st) =
        \<lparr>result = Inr (json_report rep), store = cache_save saved key rep st,
         progress = [], requests = []\<rparr>)
   \<and> (json_safe rep \<longrightarrow> json_report rep = rep)
   \<and> ((\<forall>m\<in>set mems. login m \<notin> set objectPrototypeNames) \<longrightarrow>
        json_safe (build_report cal yr mems rss))
   \<and> (fst (getFromCache now key st') = Some rep' \<longrightarrow>
      getOrganization cal api now later key onProgress st' =
        \<lparr>result = Inr rep', store = st', progress = [], requests = []\<rparr>)"
proof (intro conjI impI)
  assume "now - saved \<le> CACHE_EXPIRATION"
  then have "fst (getFromCache now key (cache_save saved key rep st)) = Some (json_report rep)"
    by (simp add: getFromCache_def cache_save_def saveToCache_def)
  then show "getOrganization cal api now later key onProgress (cache_save saved key rep st) =
        \<lparr>result = Inr (json_report rep), store = cache_save saved key rep st,
         progress = [], requests = []\<rparr>"
    by (rule getOrganization_hit)
qed (simp_all add: json_report_safe build_report_json_safe getOrganization_hit)

theorem getOrganization_cache_hit_witness:
  "getOrganization utc acme_api 1718456400000 1718456460000 ''acme'' True
     (cache_save 1718452860000 ''acme'' acme_report None) =
     \<lparr>result = Inr acme_report,
      store = Some \<lparr>timestamp = 1718452860000, orgName = ''acme'', payload = acme_report\<rparr>,
      progress = [], requests = []\<rparr>
   \<and> json_report acme_report = acme_report
   \<and> json_safe (build_report utc 2024 [\<lparr>login = ''alice''\<rparr>] [])
   \<and> getOrganization utc acme_api 1718456400000 1718456460000 ''acme'' False
     (Some \<lparr>timestamp = 1718452860000, orgName = ''acme'', payload = acme_report\<rparr>) =
     \<lparr>result = Inr acme_report,
      store = Some \<lparr>timestamp = 1718452860000, orgName = ''acme'', payload = acme_report\<rparr>,
      progress = [], requests = []\<rparr>"
proof -
  note inst = getOrganization_cache_hit[of 1718456400000 1718452860000 utc acme_api
      1718456460000 "''acme''" _ acme_report None "[\<lparr>login = ''alice''\<rparr>]" 2024 "[]"
      "Some \<lparr>timestamp = 1718452860000, orgName = ''acme'', payload = acme_report\<rparr>"
      acme_report]
  have safe: "json_safe acme_report"
    by (simp add: json_safe_def acme_report_def plain_def)
  have fixed: "json_report acme_report = acme_report"
    using inst[of True] safe by blast
  have fresh: "(1718456400000::int) - 1718452860000 \<le> CACHE_EXPIRATION"
    by (simp add: CACHE_EXPIRATION_def)
  have names: "\<forall>m\<in>set [\<lparr>login = ''alice''\<rparr>]. login m \<notin> set objectPrototypeNames"
    by (simp add: objectPrototypeNames_def)
  have hit: "fst (getFromCache 1718456400000 ''acme''
      (Some \<lparr>timestamp = 1718452860000, orgName = ''acme'', payload = acme_report\<rparr>)) = Some acme_report"
    by (simp add: getFromCache_def CACHE_EXPIRATION_def)
  have a: "getOrganization utc acme_api 1718456400000 1718456460000 ''acme'' True
     (cache_save 1718452860000 ''acme'' acme_report None) =
     \<lparr>result = Inr acme_report,
      store = Some \<lparr>timestamp = 1718452860000, orgName = ''acme'', payload = acme_report\<rparr>,
      progress = [], requests = []\<rparr>"
    using inst[of True] fresh by (simp add: fixed cache_save_def saveToCache_def)
  have b: "json_safe (build_report utc 2024 [\<lparr>login = ''alice''\<rparr>] [])"
    using inst[of True] names by blast
  have c: "getOrganization utc acme_api 1718456400000 1718456460000 ''acme'' False
     (Some \<lparr>timestamp = 1718452860000, orgName = ''acme'', payload = acme_report\<rparr>) =
     \<lparr>result = Inr acme_report,
      store = Some \<lparr>timestamp = 1718452860000, orgName = ''acme'', payload = acme_report\<rparr>,
      progress = [], requests = []\<rparr>"
    using inst[of False] hit by blast
  from a fixed b c show ?thesis by blast
qed

text \<open>
  The claim as stated fails in two ways. The store holds one entry for all keys. With
  the report saved for \<open>acme\<close> and still fresh, a read for another organization removes
  the entry, and a save for another organization replaces it; the save for \<open>acme\<close> is
  still the most recent write for that key, yet the next \<open>getOrganization\<close> for \<open>acme\<close>
  misses, starts eight API operations and calls \<open>onProgress\<close> twice. And the output is
  not always identical: for a member whose login is \<open>constructor\<close> and who has no
  commits in the year, \<open>memberStats[login] || 0\<close> is the inherited function; the report
  returned by the call that writes the cache has it as the member's contributions, and
  \<open>JSON.stringify\<close> leaves the property out, so the call that hits the cache returns the
  member without contributions.
\<close>

theorem getOrganization_cache_counterexample:
  "(1718452800000::int) - 1718452000000 \<le> CACHE_EXPIRATION
   \<and> requests (getOrganization utc acme_api 1718452800000 1718452860000 ''acme'' True
        (snd (getFromCache 1718452500000 ''other''
               (cache_save 1718452000000 ''acme'' acme_report None))))
     = [GetMembers ''acme'', GetRepos ''acme'',
        GetContributorStats ''acme'' ''web'', GetIssues ''acme'' ''web'',
        GetPullRequests ''acme'' ''web'',
        GetContributorStats ''acme'' ''api'', GetIssues ''acme'' ''api'',
        GetPullRequests ''acme'' ''api'']
   \<and> progress (getOrganization utc acme_api 1718452800000 1718452860000 ''acme'' True
        (snd (getFromCache 1718452500000 ''other''
               (cache_save 1718452000000 ''acme'' acme_report None))))
     = [(1, 2), (2, 2)]
   \<and> progress (getOrganization utc acme_api 1718452800000 1718452860000 ''acme'' True
        (cache_save 1718452500000 ''other'' acme_report
           (cache_save 1718452000000 ''acme'' acme_report None)))
     = [(1, 2), (2, 2)]
   \<and> result (getOrganization utc ctor_api 1718452800000 1718452860000 ''acme'' False None)
     = Inr (ctor_report (Inherited ''constructor''))
   \<and> result (getOrganization utc ctor_api 1718456400000 1718456460000 ''acme'' False
        (cache_save 1718452860000 ''acme'' (ctor_report (Inherited ''constructor'')) None))
     = Inr (ctor_report Missing)"
proof -
  have purge: "snd (getFromCache 1718452500000 ''other''
               (cache_save 1718452000000 ''acme'' acme_report None)) = None"
    by (simp add: getFromCache_def cache_save_def saveToCache_def)
  have miss: "fst (getFromCache 1718452800000 ''acme''
        (cache_save 1718452500000 ''other'' acme_report
           (cache_save 1718452000000 ''acme'' acme_report None))) = None"
    by (simp add: getFromCache_def cache_save_def saveToCache_def)
  have built: "result (getOrganization utc ctor_api 1718452800000 1718452860000 ''acme'' False None)
     = Inr (ctor_report (Inherited ''constructor''))"
    by code_simp
  have js: "json_report (ctor_report (Inherited ''constructor'')) = ctor_report Missing"
    by (simp add: json_report_def ctor_report_def json_object_def)
  have hit: "fst (getFromCache 1718456400000 ''acme''
        (cache_save 1718452860000 ''acme'' (ctor_report (Inherited ''constructor'')) None))
      = Some (ctor_report Missing)"
    by (simp add: getFromCache_def cache_save_def saveToCache_def js CACHE_EXPIRATION_def)
  show ?thesis
    by (simp add: purge acme_outcome getOrganization_miss_any[OF miss] built
          getOrganization_hit[OF hit] CACHE_EXPIRATION_def)
qed

lemma repo_task_failed:
  "api_getIssues api org (repo_name repo) yr = Inl e \<Longrightarrow>
   repo_task cal api org yr onp n repo p = (None, tick onp n p)"
  by (simp add: repo_task_def split: sum.splits)

lemma repo_task_ok:
  assumes "api_getContributorStats api org (repo_name repo) = Inr cs"
    and "api_getIssues api org (repo_name repo) yr = Inr iss"
    and "api_getPullRequests api org (repo_name repo) = Inr prs"
  shows "\<exists>rs. repo_task cal api org yr onp n repo p = (Some rs, tick onp n p)
            \<and> rs_name rs = repo_name repo"
  using assms by (simp add: repo_task_def Let_def)

lemma build_report_names: "map r_name (repos (build_report cal yr mems rss)) = map rs_name rss"
  by (simp add: build_report_def Let_def comp_def)

lemma one_of_two_repos_fails:
  assumes cal: "calendar_ok cal"
    and miss: "fst (getFromCache now org st) = None"
    and mems: "api_getMembers api org = Inr mems"
    and listing: "api_getRepos api org = Inr allRepos"
    and own: "filter (\<lambda>repo. \<not> fork repo) allRepos = [good, bad]
              \<or> filter (\<lambda>repo. \<not> fork repo) allRepos = [bad, good]"
    and fails: "api_getIssues api org (repo_name bad) (getFullYear cal now) = Inl e"
    and ok: "api_getContributorStats api org (repo_name good) = Inr cs"
            "api_getIssues api org (repo_name good) (getFullYear cal now) = Inr iss"
            "api_getPullRequests api org (repo_name good) = Inr prs"
  shows "map_option (map r_name) (report_repos (getOrganization cal api now later org True st))
           = Some [repo_name good]
         \<and> progress (getOrganization cal api now later org True st) = [(1, 2), (2, 2)]"
proof -
  obtain st1 where c: "getFromCache now org st = (None, st1)"
    using miss by (cases "getFromCache now org st") auto
  let ?p0 = "\<lparr>processed = 0, reported = []\<rparr>"
  let ?task = "repo_task cal api org (getFullYear cal now) True (Suc (Suc 0))"
  have bad: "\<And>p. ?task bad p = (None, tick True (Suc (Suc 0)) p)"
    using fails by (rule repo_task_failed)
  from repo_task_ok[OF ok] obtain rs where
    good: "\<And>p. \<exists>rs. ?task good p = (Some rs, tick True (Suc (Suc 0)) p) \<and> rs_name rs = repo_name good"
    by blast
  obtain rs0 where g0: "?task good ?p0 = (Some rs0, tick True (Suc (Suc 0)) ?p0)" "rs_name rs0 = repo_name good"
    using good by blast
  obtain rs1 where g1: "?task good (tick True (Suc (Suc 0)) ?p0) = (Some rs1, tick True (Suc (Suc 0)) (tick True (Suc (Suc 0)) ?p0))"
    "rs_name rs1 = repo_name good"
    using good by blast
  have t: "reported (tick True (Suc (Suc 0)) (tick True (Suc (Suc 0)) ?p0)) = [(1, 2), (2, 2)]"
    by (simp add: tick_def)
  from own show ?thesis
  proof
    assume o: "filter (\<lambda>repo. \<not> fork repo) allRepos = [good, bad]"
    show ?thesis
      by (simp add: getOrganization_def c mems listing o Let_def g0 bad report_repos_def
            List.map_filter_simps build_report_names t)
  next
    assume o: "filter (\<lambda>repo. \<not> fork repo) allRepos = [bad, good]"
    show ?thesis
      by (simp add: getOrganization_def c mems listing o Let_def g1 bad report_repos_def
            List.map_filter_simps build_report_names t)
  qed
qed


text \<open>
  C1 (as amended). For an organization with two repositories of its own, one of whose
  issues listing fails while the three listings of the other succeed, and a cache miss,
  \<open>getOrganization\<close> returns a report whose \<open>repos\<close> array has one entry, that of the
  repository whose listings succeeded: the failing repository is left out of the report.
  \<open>onProgress\<close> is called exactly twice, with (1, 2) and then (2, 2). This holds in
  every time zone, that is for every calendar whose months are 0 to 11.
\<close>

theorem getOrganization_drops_failed_repo:
  assumes cal: "calendar_ok cal"
    and miss: "fst (getFromCache now org st) = None"
    and mems: "api_getMembers api org = Inr mems"
    and listing: "api_getRepos api org = Inr allRepos"
    and own: "filter (\<lambda>repo. \<not> fork repo) allRepos = [good, bad]
              \<or> filter (\<lambda>repo. \<not> fork repo) allRepos = [bad, good]"
    and fails: "api_getIssues api org (repo_name bad) (getFullYear cal now) = Inl e"
    and ok: "api_getContributorStats api org (repo_name good) = Inr cs"
            "api_getIssues api org (repo_name good) (getFullYear cal now) = Inr iss"
            "api_getPullRequests api org (repo_name good) = Inr prs"
  shows "map_option (map r_name) (report_repos (getOrganization cal api now later org True st))
           = Some [repo_name good]
         \<and> progress (getOrganization cal api now later org True st) = [(1, 2), (2, 2)]"
  using assms by (rule one_of_two_repos_fails)

theorem getOrganization_drops_failed_repo_witness:
  "map_option (map r_name)
     (report_repos (getOrganization utc acme_api 1718452800000 1718452860000 ''acme'' True None))
     = Some [''web'']
   \<and> progress (getOrganization utc acme_api 1718452800000 1718452860000 ''acme'' True None)
     = [(1, 2), (2, 2)]"
  using getOrganization_drops_failed_repo[of utc 1718452800000 "''acme''" None acme_api
          "[\<lparr>login = ''alice''\<rparr>]"
          "[\<lparr>repo_name = ''web'', stargazers_count = 3, fork = False,
             repo_created_at = 1707998400000, repo_archived_at = None\<rparr>,
            \<lparr>repo_name = ''api'', stargazers_count = 1, fork = False,
             repo_created_at = 1707998400000, repo_archived_at = None\<rparr>]"
          "\<lparr>repo_name = ''web'', stargazers_count = 3, fork = False,
             repo_created_at = 1707998400000, repo_archived_at = None\<rparr>"
          "\<lparr>repo_name = ''api'', stargazers_count = 1, fork = False,
             repo_created_at = 1707998400000, repo_archived_at = None\<rparr>"
          NetworkError
          "[\<lparr>author_login = Some ''alice'', weeks = [\<lparr>w = 1707955200, c = 5\<rparr>]\<rparr>]"
          "[issue_feb_apr]" "[]" 1718452860000]
  by (simp add: acme_api_def getFromCache_def utc_ok)


text \<open>
  The claim as stated fails: for \<open>acme_api\<close>, whose repository \<open>api\<close> fails on its issues
  listing, the \<open>repos\<close> array of the report has one entry, not two.
\<close>

theorem getOrganization_two_entries_counterexample:
  "map_option length
     (report_repos (getOrganization utc acme_api 1718452800000 1718452860000 ''acme'' True None))
     = Some 1"
  by (simp add: acme_outcome report_repos_def acme_report_def)

section \<open>Organization view model\<close>

lemma init_members_zero:
  "snd ` set acc \<subseteq> {0} \<Longrightarrow>
   snd ` set (foldl (\<lambda>ms m. AList.update (m_login m) (0::int) ms) acc mems) \<subseteq> {0}"
proof (induction mems arbitrary: acc)
  case Nil
  then show ?case by simp
next
  case (Cons m mems)
  have "snd ` set (AList.update (m_login m) (0::int) acc) \<subseteq> {0}"
    using Cons.prems set_update_subset[of "m_login m" 0 acc] by fastforce
  from Cons.IH[OF this] show ?case by simp
qed

lemma counts_leave_members:
  "\<forall>r\<in>set rs. \<exists>n. r_contributors r = ContributorCount n \<Longrightarrow>
   foldl (\<lambda>ms repo.
            case r_contributors repo of
              ContributorCount n \<Rightarrow> ms
            | ContributorArray contributors \<Rightarrow>
                foldl (\<lambda>ms (lg, contributions).
                         case map_of ms lg of
                           None \<Rightarrow> ms
                         | Some current \<Rightarrow> AList.update lg (current + contributions) ms)
                  ms contributors) ms0 rs = ms0"
  by (induction rs arbitrary: ms0) auto

lemma build_report_counts:
  "\<forall>r\<in>set (repos (build_report cal yr mems rss)). \<exists>n. r_contributors r = ContributorCount n"
  by (auto simp: build_report_def Let_def)

lemma getMostActiveMembers_of_counts:
  assumes "\<forall>r\<in>set (org_repos org). \<exists>n. r_contributors r = ContributorCount n"
  shows "snd ` set (getMostActiveMembers limit org) \<subseteq> {0}"
proof -
  have "set (getMostActiveMembers limit org)
          \<subseteq> set (foldl (\<lambda>ms m. AList.update (m_login m) (0::int) ms) [] (org_members org))"
  proof -
    have "set (take limit (sort_key f ms)) \<subseteq> set ms"
      for f :: "string \<times> int \<Rightarrow> int" and ms
      using set_take_subset[of limit "sort_key f ms"] by simp
    then show ?thesis
      by (simp add: getMostActiveMembers_def Let_def counts_leave_members[OF assms])
  qed
  moreover have "snd ` set (foldl (\<lambda>ms m. AList.update (m_login m) (0::int) ms) [] (org_members org)) \<subseteq> {0}"
    by (rule init_members_zero) simp
  ultimately show ?thesis by blast
qed

lemma fresh_report_top_members_zero:
  assumes "top_members limit (getOrganization cal api now later org onp None) = Some tm"
  shows "snd ` set tm \<subseteq> {0}"
proof -
  from assms obtain rep where r: "result (getOrganization cal api now later org onp None) = Inr rep"
    and tm: "tm = getMostActiveMembers limit (organization_of [] rep)"
    by (auto simp: top_members_def split: sum.splits)
  from r obtain mems rss where "rep = build_report cal (getFullYear cal now) mems rss"
    by (auto simp: getOrganization_def getFromCache_def Let_def split: sum.splits prod.splits)
  then have "\<forall>r\<in>set (org_repos (organization_of [] rep)). \<exists>n. r_contributors r = ContributorCount n"
    using build_report_counts by (simp add: organization_of_def)
  from getMostActiveMembers_of_counts[OF this] tm show ?thesis by simp
qed

text \<open>
  C9 (the code departs from the claim). The aggregator stores the number of contributors
  in \<open>repos[i].contributors\<close>, while \<open>getMostActiveMembers\<close> sums only over arrays found
  there and starts every member at 0, without reading the member's \<open>contributions\<close>.
  For \<open>acme_api\<close> the report gives alice 5 contributions and the query returns her with 0;
  for every freshly built report the query returns 0 for every member
  (\<open>fresh_report_top_members_zero\<close>).
\<close>

theorem getMostActiveMembers_ignores_contributions:
  "report_members (getOrganization utc acme_api 1718452800000 1718452860000 ''acme'' True None)
     = Some [\<lparr>m_login = ''alice'', m_contributions = Num 5\<rparr>]
   \<and> top_members 5 (getOrganization utc acme_api 1718452800000 1718452860000 ''acme'' True None)
     = Some [(''alice'', 0)]"
  by (simp add: acme_outcome report_members_def top_members_def acme_report_def
        getMostActiveMembers_def organization_of_def)

end
